theory Spec2Isabelle
  imports Main "HOL-Library.Word" "HOL-Library.Code_Target_Nat"
begin

section \<open>Data model of \<open>gatt-connection.js\<close>\<close>

text \<open>
  Buffers are lists of bytes. The two session keys are the fields of the key object
  that \<open>setSessionKeys\<close> stores. Values that a promise of this file settles with are
  \<open>undefined\<close> (\<open>connect\<close>, the initial \<open>Promise.resolve()\<close>) or a list of buffers.
\<close>

type_synonym byte = "8 word"
type_synonym bytes = "byte list"

datatype State = DISCONNECTED | CONNECTING | CONNECTED

record SessionKeys =
  ControllerToAccessoryKey :: bytes
  AccessoryToControllerKey :: bytes

text \<open>
  What can be thrown or passed to \<open>reject\<close>: a value handed over by the peripheral's
  callback or the string literal of \<open>findAndWriteCharacteristic\<close> (\<open>Str\<close>), the
  \<open>RangeError\<close> of \<open>Buffer.writeUInt32LE\<close> on a value outside \<open>0 .. 2^32 - 1\<close>, and the
  \<open>TypeError\<close> of reading a property of \<open>null\<close>.
\<close>

datatype error = Str string | RangeError | TypeError

datatype "value" = Undefined | PduList "bytes list"

text \<open>
  A promise is represented by what eventually becomes of it: fulfilled with a value,
  rejected with an error, or never settled (\<open>Pending\<close>: neither \<open>resolve\<close> nor
  \<open>reject\<close> is ever called).
\<close>

datatype 'a promise = Fulfilled 'a | Rejected error | Pending

text \<open>
  The peripheral and its characteristics belong to the noble library. Each call made on
  them is appended to a log; what the callback of a call receives is given by the
  environment \<open>periph\<close> as a function of the log up to and including that call.
  \<open>NoCallback\<close>: the callback is never invoked; \<open>CbError e\<close>: it is invoked with the
  truthy error \<open>e\<close>; \<open>CbOk r\<close>: it is invoked with a falsy error and results \<open>r\<close>.
\<close>

type_synonym characteristic = string

datatype call =
    Connect
  | Disconnect
  | Discover "string list" "string list"
  | Write characteristic bytes bool
  | Read characteristic

datatype 'a reply = NoCallback | CbError error | CbOk 'a

record periph =
  connect_cb :: "call list \<Rightarrow> unit reply"
  disconnect_cb :: "call list \<Rightarrow> unit reply"
  discover_cb :: "call list \<Rightarrow> (string list \<times> characteristic list) reply"
  write_cb :: "call list \<Rightarrow> unit reply"
  read_cb :: "call list \<Rightarrow> bytes option reply"

text \<open>
  \<open>libsodium-wrappers\<close> is a dependency, taken as a parameter: encryption of a message
  under a nonce and a key, and decryption, which throws (\<open>None\<close>) when authentication
  fails. Both are called with no additional data and no secret nonce.
\<close>

record aead =
  crypto_aead_encrypt :: "bytes \<Rightarrow> bytes \<Rightarrow> bytes \<Rightarrow> bytes"
  crypto_aead_decrypt :: "bytes \<Rightarrow> bytes \<Rightarrow> bytes \<Rightarrow> bytes option"

text \<open>
  The fields of a \<open>GattConnection\<close> object. \<open>calls\<close> is the log of the calls made on
  \<open>this.peripheral\<close> and on its characteristics; \<open>uncaught\<close> collects the exceptions
  thrown out of a callback that noble invokes, which no promise catches. The counters are
  JavaScript numbers, hence unbounded naturals here.
\<close>

record GattConnection =
  state :: State
  sessionKeys :: "SessionKeys option"
  a2cCounter :: nat
  c2aCounter :: nat
  currentOperation :: "value promise"
  calls :: "call list"
  uncaught :: "error list"

definition constructor :: GattConnection where
  "constructor =
     \<lparr> state = DISCONNECTED, sessionKeys = None, a2cCounter = 0, c2aCounter = 0,
       currentOperation = Fulfilled Undefined, calls = [], uncaught = [] \<rparr>"

definition setSessionKeys :: "SessionKeys option \<Rightarrow> GattConnection \<Rightarrow> GattConnection" where
  "setSessionKeys keys s = s\<lparr>sessionKeys := keys\<rparr>"

section \<open>Buffers and nonces\<close>

definition Buffer_alloc :: "nat \<Rightarrow> bytes" where
  "Buffer_alloc n = replicate n 0"

text \<open>
  \<open>buf.writeUInt32LE(value, offset)\<close> of Node: a \<open>RangeError\<close> when the value is not an
  unsigned 32-bit integer or the four bytes do not fit, else the four bytes of the value,
  least significant first, replace the bytes at \<open>offset .. offset + 3\<close>.
\<close>

definition writeUInt32LE :: "bytes \<Rightarrow> nat \<Rightarrow> nat \<Rightarrow> error + bytes" where
  "writeUInt32LE buf v offset =
     (if v < 2 ^ 32 \<and> offset + 4 \<le> length buf
      then Inr (take offset buf
                @ [of_nat v, of_nat (v div 2 ^ 8), of_nat (v div 2 ^ 16), of_nat (v div 2 ^ 24)]
                @ drop (offset + 4) buf)
      else Inl RangeError)"

text \<open>\<open>buf.slice(start, end)\<close> for \<open>0 \<le> start\<close>: the bytes from \<open>start\<close> up to, not including, \<open>end\<close>.\<close>

definition slice :: "bytes \<Rightarrow> nat \<Rightarrow> nat \<Rightarrow> bytes" where
  "slice buf start end = take (end - start) (drop start buf)"

section \<open>Encryption and decryption of PDUs\<close>

text \<open>
  The \<open>while\<close> loop of \<open>_encryptPdus\<close> over one PDU. The counter is incremented before
  \<open>writeUInt32LE\<close> can throw; \<open>this.sessionKeys.ControllerToAccessoryKey\<close> throws when
  no keys are set. An exception leaves the function with the state reached so far.
\<close>

function encryptWhile ::
  "aead \<Rightarrow> bytes \<Rightarrow> nat \<Rightarrow> bytes list \<Rightarrow> GattConnection \<Rightarrow> (error + bytes list) \<times> GattConnection"
where
  "encryptWhile A pdu position encryptedPdus s =
     (if position < length pdu then
        (let s' = s\<lparr>c2aCounter := c2aCounter s + 1\<rparr> in
         case writeUInt32LE (Buffer_alloc 12) (c2aCounter s) 4 of
           Inl e \<Rightarrow> (Inl e, s')
         | Inr writeNonce \<Rightarrow>
             (let frameLength = min (length pdu - position) 496 in
              case sessionKeys s' of
                None \<Rightarrow> (Inl TypeError, s')
              | Some keys \<Rightarrow>
                  (let frame = crypto_aead_encrypt A
                                 (slice pdu position (position + frameLength))
                                 writeNonce (ControllerToAccessoryKey keys)
                   in encryptWhile A pdu (position + frameLength) (encryptedPdus @ [frame]) s')))
      else (Inr encryptedPdus, s))"
  by pat_completeness auto
termination
  by (relation "measure (\<lambda>(A, pdu, position, encryptedPdus, s). length pdu - position)") auto

declare encryptWhile.simps [simp del]

text \<open>The \<open>for\<close> loop of \<open>_encryptPdus\<close> over the PDUs, and \<open>_encryptPdus\<close> itself.\<close>

fun encryptFor ::
  "aead \<Rightarrow> bytes list \<Rightarrow> bytes list \<Rightarrow> GattConnection \<Rightarrow> (error + bytes list) \<times> GattConnection"
where
  "encryptFor A [] encryptedPdus s = (Inr encryptedPdus, s)"
| "encryptFor A (pdu # rest) encryptedPdus s =
     (case encryptWhile A pdu 0 encryptedPdus s of
        (Inl e, s') \<Rightarrow> (Inl e, s')
      | (Inr encryptedPdus', s') \<Rightarrow> encryptFor A rest encryptedPdus' s')"

definition encryptPdus ::
  "aead \<Rightarrow> bytes list \<Rightarrow> GattConnection \<Rightarrow> (error + bytes list) \<times> GattConnection"
where
  "encryptPdus A pdus s = encryptFor A pdus [] s"

text \<open>
  The \<open>for\<close> loop of \<open>_decryptPdus\<close>. \<open>writeUInt32LE\<close> is outside the \<open>try\<close> block, so its
  exception leaves the function; everything thrown inside the \<open>try\<close> block (the
  \<open>TypeError\<close> of absent keys, the failure of the decryption) is caught and the frame
  is skipped.
\<close>

fun decryptFor ::
  "aead \<Rightarrow> bytes list \<Rightarrow> bytes list \<Rightarrow> GattConnection \<Rightarrow> (error + bytes list) \<times> GattConnection"
where
  "decryptFor A [] decryptedPdus s = (Inr decryptedPdus, s)"
| "decryptFor A (pdu # rest) decryptedPdus s =
     (let s' = s\<lparr>a2cCounter := a2cCounter s + 1\<rparr> in
      case writeUInt32LE (Buffer_alloc 12) (a2cCounter s) 4 of
        Inl e \<Rightarrow> (Inl e, s')
      | Inr readNonce \<Rightarrow>
          (case sessionKeys s' of
             None \<Rightarrow> decryptFor A rest decryptedPdus s'
           | Some keys \<Rightarrow>
               (case crypto_aead_decrypt A pdu readNonce (AccessoryToControllerKey keys) of
                  None \<Rightarrow> decryptFor A rest decryptedPdus s'
                | Some decryptedData \<Rightarrow> decryptFor A rest (decryptedPdus @ [decryptedData]) s')))"

definition decryptPdus ::
  "aead \<Rightarrow> bytes list \<Rightarrow> GattConnection \<Rightarrow> (error + bytes list) \<times> GattConnection"
where
  "decryptPdus A pdus s = decryptFor A pdus [] s"

section \<open>Connection state machine\<close>

text \<open>
  \<open>connect()\<close>: nothing to do when already connected; a connection in any other state
  than \<open>DISCONNECTED\<close> is disconnected first; then the peripheral is asked to connect.
\<close>

definition connect :: "periph \<Rightarrow> GattConnection \<Rightarrow> value promise \<times> GattConnection" where
  "connect P s =
     (if state s = CONNECTED then (Fulfilled Undefined, s)
      else
        (case (if state s \<noteq> DISCONNECTED then
                 (let s' = s\<lparr>calls := calls s @ [Disconnect]\<rparr> in
                  case disconnect_cb P (calls s') of
                    CbError err \<Rightarrow> (Rejected err, s')
                  | CbOk _ \<Rightarrow> (Fulfilled Undefined, s'\<lparr>state := DISCONNECTED\<rparr>)
                  | NoCallback \<Rightarrow> (Pending, s'))
               else (Fulfilled Undefined, s)) of
           (Fulfilled _, s1) \<Rightarrow>
             (let s2 = s1\<lparr>state := CONNECTING, calls := calls s1 @ [Connect]\<rparr> in
              case connect_cb P (calls s2) of
                CbError err \<Rightarrow> (Rejected err, s2)
              | CbOk _ \<Rightarrow> (Fulfilled Undefined, s2\<lparr>state := CONNECTED\<rparr>)
              | NoCallback \<Rightarrow> (Pending, s2))
         | (Rejected err, s1) \<Rightarrow> (Rejected err, s1)
         | (Pending, s1) \<Rightarrow> (Pending, s1)))"

definition disconnect :: "periph \<Rightarrow> GattConnection \<Rightarrow> value promise \<times> GattConnection" where
  "disconnect P s =
     (if state s \<noteq> DISCONNECTED then
        (let s' = s\<lparr>calls := calls s @ [Disconnect]\<rparr> in
         case disconnect_cb P (calls s') of
           CbError err \<Rightarrow> (Rejected err, s')
         | CbOk _ \<Rightarrow> (Fulfilled Undefined, s'\<lparr>state := DISCONNECTED\<rparr>)
         | NoCallback \<Rightarrow> (Pending, s'))
      else (Fulfilled Undefined, s))"

section \<open>Operation sequencer\<close>

text \<open>
  \<open>_queueOperation(op)\<close> assigns
  \<open>this.currentOperation = this.currentOperation.then(() => op()).catch(() => op())\<close>
  and returns it. When the previous promise is fulfilled, \<open>then\<close> invokes \<open>op\<close>, and
  \<open>catch\<close> invokes it again if that invocation is rejected. When the previous promise
  is rejected, \<open>then\<close> passes the rejection on and \<open>catch\<close> invokes \<open>op\<close>, once. When
  the previous promise never settles, \<open>op\<close> is never invoked.

  An operation is a closure: \<open>c\<close> holds the variables it captures and assigns to, so a
  second invocation sees what the first one left there. \<open>None\<close> is an operation that
  runs forever.

  The assignment to \<open>this.currentOperation\<close> is made before \<open>op\<close> runs, and the promise
  assigned is unsettled as long as \<open>op\<close> runs: whatever \<open>op\<close> itself enqueues waits for
  it. Hence \<open>op\<close> runs with \<open>currentOperation = Pending\<close>; once \<open>op\<close> is through the
  field stands for what became of the promise. The one operation of the source that
  enqueues from inside an operation is that of \<open>findAndWriteCharacteristic\<close>, on the
  path where its own promise is never settled, so that what it enqueues is never invoked.
\<close>

definition queueOperation ::
  "('c \<Rightarrow> GattConnection \<Rightarrow> (value promise \<times> 'c \<times> GattConnection) option)
   \<Rightarrow> 'c \<Rightarrow> GattConnection \<Rightarrow> (value promise \<times> GattConnection) option"
where
  "queueOperation op c s =
     (case currentOperation s of
        Pending \<Rightarrow> Some (Pending, s)
      | Fulfilled _ \<Rightarrow>
          (case op c (s\<lparr>currentOperation := Pending\<rparr>) of
             None \<Rightarrow> None
           | Some (Rejected _, c1, s1) \<Rightarrow>
               (case op c1 s1 of
                  None \<Rightarrow> None
                | Some (r, c2, s2) \<Rightarrow> Some (r, s2\<lparr>currentOperation := r\<rparr>))
           | Some (r, c1, s1) \<Rightarrow> Some (r, s1\<lparr>currentOperation := r\<rparr>))
      | Rejected _ \<Rightarrow>
          (case op c (s\<lparr>currentOperation := Pending\<rparr>) of
             None \<Rightarrow> None
           | Some (r, c1, s1) \<Rightarrow> Some (r, s1\<lparr>currentOperation := r\<rparr>)))"

section \<open>Characteristic transactions\<close>

text \<open>
  \<open>_readCharacteristicInner\<close>: one \<open>characteristic.read\<close> per step. A read error
  rejects; data of positive length is pushed and the next read is issued, the promise
  following that of the recursive call; anything else ends the drain, with the frames
  decrypted when session keys are set (\<open>drained\<close>, the last branch of the callback).
  An exception of \<open>_decryptPdus\<close> is thrown inside the callback of \<open>read\<close>, where no
  promise catches it: the promise stays pending. A characteristic that answers every
  read with data keeps the drain running forever (\<open>None\<close>).
\<close>

definition drained :: "aead \<Rightarrow> bytes list \<Rightarrow> GattConnection \<Rightarrow> value promise \<times> GattConnection" where
  "drained A pdus s =
     (if sessionKeys s \<noteq> None then
        (case decryptPdus A pdus s of
           (Inl e, s') \<Rightarrow> (Pending, s'\<lparr>uncaught := uncaught s' @ [e]\<rparr>)
         | (Inr pdus', s') \<Rightarrow> (Fulfilled (PduList pdus'), s'))
      else (Fulfilled (PduList pdus), s))"

partial_function (option) readCharacteristicInner ::
  "periph \<Rightarrow> aead \<Rightarrow> characteristic \<Rightarrow> bytes list \<Rightarrow> GattConnection
   \<Rightarrow> (value promise \<times> GattConnection) option"
where
  "readCharacteristicInner P A characteristic pdus s =
     (let s1 = s\<lparr>calls := calls s @ [Read characteristic]\<rparr> in
      case read_cb P (calls s1) of
        NoCallback \<Rightarrow> Some (Pending, s1)
      | CbError err \<Rightarrow> Some (Rejected err, s1)
      | CbOk None \<Rightarrow> Some (drained A pdus s1)
      | CbOk (Some data) \<Rightarrow>
          if length data > 0 then
            readCharacteristicInner P A characteristic (pdus @ [data]) s1
          else Some (drained A pdus s1))"

declare readCharacteristicInner.simps [code]

definition readCharacteristic ::
  "periph \<Rightarrow> aead \<Rightarrow> characteristic \<Rightarrow> GattConnection \<Rightarrow> (value promise \<times> GattConnection) option"
where
  "readCharacteristic P A characteristic s =
     queueOperation
       (\<lambda>c s. map_option (\<lambda>(r, s'). (r, c, s')) (readCharacteristicInner P A characteristic [] s))
       () s"

text \<open>
  The \<open>for\<close> loop of \<open>writeCharacteristic\<close> issues every write at once, one promise per
  write, settled by the callback of that write.
\<close>

definition promiseOfCallback :: "unit reply \<Rightarrow> unit promise" where
  "promiseOfCallback r =
     (case r of NoCallback \<Rightarrow> Pending | CbError err \<Rightarrow> Rejected err | CbOk _ \<Rightarrow> Fulfilled ())"

fun writeFor ::
  "periph \<Rightarrow> characteristic \<Rightarrow> bytes list \<Rightarrow> unit promise list \<Rightarrow> GattConnection
   \<Rightarrow> unit promise list \<times> GattConnection"
where
  "writeFor P characteristic [] promises s = (promises, s)"
| "writeFor P characteristic (pdu # rest) promises s =
     (let s' = s\<lparr>calls := calls s @ [Write characteristic pdu False]\<rparr> in
      writeFor P characteristic rest (promises @ [promiseOfCallback (write_cb P (calls s'))]) s')"

text \<open>
  \<open>Promise.all\<close>: rejected as soon as one of the promises is rejected, fulfilled when all
  are fulfilled, pending otherwise. The callbacks are taken to arrive in the order of
  the writes, so the first rejected promise of the list gives the error.
\<close>

fun firstRejected :: "'a promise list \<Rightarrow> error option" where
  "firstRejected [] = None"
| "firstRejected (Rejected e # ps) = Some e"
| "firstRejected (_ # ps) = firstRejected ps"

definition Promise_all :: "'a promise list \<Rightarrow> unit promise" where
  "Promise_all ps =
     (case firstRejected ps of
        Some e \<Rightarrow> Rejected e
      | None \<Rightarrow> if Pending \<in> set ps then Pending else Fulfilled ())"

text \<open>
  The operation that \<open>writeCharacteristic\<close> enqueues. It assigns the encrypted frames to
  the parameter \<open>pdus\<close> of \<open>writeCharacteristic\<close>, which the closure captures; an
  exception of \<open>_encryptPdus\<close> is thrown inside a \<open>then\<close> or \<open>catch\<close> handler and rejects.
\<close>

definition writeCharacteristicOp ::
  "periph \<Rightarrow> aead \<Rightarrow> characteristic \<Rightarrow> bytes list \<Rightarrow> GattConnection
   \<Rightarrow> (value promise \<times> bytes list \<times> GattConnection) option"
where
  "writeCharacteristicOp P A characteristic pdus s =
     (case (if sessionKeys s \<noteq> None then encryptPdus A pdus s else (Inr pdus, s)) of
        (Inl e, s1) \<Rightarrow> Some (Rejected e, pdus, s1)
      | (Inr pdus', s1) \<Rightarrow>
          (case writeFor P characteristic pdus' [] s1 of
             (promises, s2) \<Rightarrow>
               (case Promise_all promises of
                  Fulfilled _ \<Rightarrow>
                    map_option (\<lambda>(r, s3). (r, pdus', s3))
                      (readCharacteristicInner P A characteristic [] s2)
                | Rejected err \<Rightarrow> Some (Rejected err, pdus', s2)
                | Pending \<Rightarrow> Some (Pending, pdus', s2))))"

definition writeCharacteristic ::
  "periph \<Rightarrow> aead \<Rightarrow> characteristic \<Rightarrow> bytes list \<Rightarrow> GattConnection
   \<Rightarrow> (value promise \<times> GattConnection) option"
where
  "writeCharacteristic P A characteristic pdus s =
     queueOperation (writeCharacteristicOp P A characteristic) pdus s"

text \<open>
  The operation that \<open>findAndWriteCharacteristic\<close> enqueues. Its promise is the one
  created around \<open>discoverSomeServicesAndCharacteristics\<close>; the callback rejects it on
  an error and when nothing is found, and otherwise calls \<open>writeCharacteristic\<close> and
  returns, calling neither \<open>resolve\<close> nor \<open>reject\<close>.
\<close>

definition findAndWriteCharacteristicOp ::
  "periph \<Rightarrow> aead \<Rightarrow> string \<Rightarrow> string \<Rightarrow> bytes list \<Rightarrow> unit \<Rightarrow> GattConnection
   \<Rightarrow> (value promise \<times> unit \<times> GattConnection) option"
where
  "findAndWriteCharacteristicOp P A serviceUuid characteristicUuid pdus c s =
     (case connect P s of
        (Fulfilled _, s1) \<Rightarrow>
          (let s2 = s1\<lparr>calls := calls s1 @ [Discover [serviceUuid] [characteristicUuid]]\<rparr> in
           case discover_cb P (calls s2) of
             NoCallback \<Rightarrow> Some (Pending, c, s2)
           | CbError err \<Rightarrow> Some (Rejected err, c, s2)
           | CbOk (services, characteristics) \<Rightarrow>
               if length services = 0 \<or> length characteristics = 0 then
                 Some (Rejected (Str ''Characteristic not found''), c, s2)
               else
                 (case writeCharacteristic P A (characteristics ! 0) pdus s2 of
                    None \<Rightarrow> None
                  | Some (_, s3) \<Rightarrow> Some (Pending, c, s3)))
      | (Rejected err, s1) \<Rightarrow> Some (Rejected err, c, s1)
      | (Pending, s1) \<Rightarrow> Some (Pending, c, s1))"

definition findAndWriteCharacteristic ::
  "periph \<Rightarrow> aead \<Rightarrow> string \<Rightarrow> string \<Rightarrow> bytes list \<Rightarrow> GattConnection
   \<Rightarrow> (value promise \<times> GattConnection) option"
where
  "findAndWriteCharacteristic P A serviceUuid characteristicUuid pdus s =
     queueOperation (findAndWriteCharacteristicOp P A serviceUuid characteristicUuid pdus) () s"

section \<open>The specification's frame format\<close>

text \<open>
  The nonce as the specification words it: 12 bytes, all zero except for the counter,
  little-endian in four bytes from offset 4 (byte \<open>i\<close> of the counter is
  \<open>counter div 256 ^ i mod 256\<close>).
\<close>

definition specNonce :: "nat \<Rightarrow> bytes" where
  "specNonce counter =
     replicate 4 0 @ map (\<lambda>i. of_nat (counter div 256 ^ i)) [0..<4] @ replicate 4 0"

text \<open>
  Fragmentation as the specification words it: repeatedly slice chunks of at most 496
  bytes off the PDU until it is consumed, in order.
\<close>

function specFragment :: "bytes \<Rightarrow> bytes list" where
  "specFragment pdu = (if pdu = [] then [] else take 496 pdu # specFragment (drop 496 pdu))"
  by pat_completeness auto
termination
  by (relation "measure length") auto

declare specFragment.simps [simp del]

text \<open>
  Each chunk becomes one frame under the nonce of the next counter value
  (\<open>specSeal\<close>); each frame read is opened under the nonce of the next counter value
  and left out when that fails (\<open>specOpen\<close>).
\<close>

definition specSeal :: "aead \<Rightarrow> bytes \<Rightarrow> nat \<Rightarrow> bytes list \<Rightarrow> bytes list" where
  "specSeal A key k chunks =
     map2 (\<lambda>chunk c. crypto_aead_encrypt A chunk (specNonce c) key) chunks [k..<k + length chunks]"

definition specOpen :: "aead \<Rightarrow> bytes \<Rightarrow> nat \<Rightarrow> bytes list \<Rightarrow> bytes list" where
  "specOpen A key k frames =
     List.map_filter (\<lambda>(frame, c). crypto_aead_decrypt A frame (specNonce c) key)
       (zip frames [k..<k + length frames])"

section \<open>Concrete inputs\<close>

text \<open>
  A stand-in for the cipher at concrete inputs: the message followed by a 16-byte tag
  made of nonce and key; opening checks the tag.
\<close>

definition exampleTag :: "bytes \<Rightarrow> bytes \<Rightarrow> bytes" where
  "exampleTag nonce key = take 16 (nonce @ key @ replicate 16 0)"

definition exampleAead :: aead where
  "exampleAead =
     \<lparr> crypto_aead_encrypt = (\<lambda>m nonce key. m @ exampleTag nonce key),
       crypto_aead_decrypt = (\<lambda>c nonce key.
          if 16 \<le> length c \<and> drop (length c - 16) c = exampleTag nonce key
          then Some (take (length c - 16) c) else None) \<rparr>"

definition exampleKeys :: SessionKeys where
  "exampleKeys = \<lparr> ControllerToAccessoryKey = [1, 2, 3], AccessoryToControllerKey = [1, 2, 3] \<rparr>"

text \<open>
  Peripherals: one that acknowledges everything, finds one service and one
  characteristic and has nothing to read; one that finds nothing; one whose every
  callback reports an error; one that delivers one frame and then fails to read.
\<close>

definition ackingPeripheral :: periph where
  "ackingPeripheral =
     \<lparr> connect_cb = (\<lambda>h. CbOk ()), disconnect_cb = (\<lambda>h. CbOk ()),
       discover_cb = (\<lambda>h. CbOk ([''svc''], [''chr''])),
       write_cb = (\<lambda>h. CbOk ()), read_cb = (\<lambda>h. CbOk (Some [])) \<rparr>"

definition emptyPeripheral :: periph where
  "emptyPeripheral =
     \<lparr> connect_cb = (\<lambda>h. CbOk ()), disconnect_cb = (\<lambda>h. CbOk ()),
       discover_cb = (\<lambda>h. CbOk ([], [])),
       write_cb = (\<lambda>h. CbOk ()), read_cb = (\<lambda>h. CbOk (Some [])) \<rparr>"

definition failingPeripheral :: periph where
  "failingPeripheral =
     \<lparr> connect_cb = (\<lambda>h. CbError (Str ''link lost'')),
       disconnect_cb = (\<lambda>h. CbError (Str ''link lost'')),
       discover_cb = (\<lambda>h. CbError (Str ''link lost'')),
       write_cb = (\<lambda>h. CbError (Str ''link lost'')),
       read_cb = (\<lambda>h. CbError (Str ''link lost'')) \<rparr>"

definition brokenReadPeripheral :: periph where
  "brokenReadPeripheral =
     \<lparr> connect_cb = (\<lambda>h. CbOk ()), disconnect_cb = (\<lambda>h. CbOk ()),
       discover_cb = (\<lambda>h. CbOk ([''svc''], [''chr''])),
       write_cb = (\<lambda>h. CbOk ()),
       read_cb = (\<lambda>h. if length h = 1 then CbOk (Some [1]) else CbError (Str ''read failed'')) \<rparr>"

section \<open>Nonces, fragments and the two loops of the codec\<close>

lemma upt_4: "[0..<4] = [0, 1, 2, 3::nat]"
  by (simp add: upt_rec)

lemma writeNonce_spec:
  "counter < 2 ^ 32 \<Longrightarrow> writeUInt32LE (Buffer_alloc 12) counter 4 = Inr (specNonce counter)"
  by (simp add: writeUInt32LE_def Buffer_alloc_def specNonce_def upt_4)

lemma sum4: "(\<Sum>i<4. f i) = f 0 + f 1 + f 2 + f (3::nat)" for f :: "nat \<Rightarrow> nat"
proof -
  have "{..<4::nat} = {0, 1, 2, 3}" by auto
  then show ?thesis by simp
qed

lemma digits:
  fixes c :: nat
  assumes "c < 2 ^ 32"
  shows "c mod 256 + (c div 256 mod 256) * 256 + (c div 65536 mod 256) * 65536
         + (c div 16777216 mod 256) * 16777216 = c"
proof -
  define x1 x2 x3 where "x1 = c div 256" and "x2 = x1 div 256" and "x3 = x2 div 256"
  have d2: "c div 65536 = x2" and d3: "c div 16777216 = x3"
    by (simp_all add: x1_def x2_def x3_def div_mult2_eq)
  have e0: "c mod 256 + 256 * x1 = c" and e1: "x1 mod 256 + 256 * x2 = x1"
    and e2: "x2 mod 256 + 256 * x3 = x2"
    by (simp_all add: x1_def x2_def x3_def)
  have "x3 < 256" using assms by (simp add: x1_def x2_def x3_def div_mult2_eq)
  then have e3: "x3 mod 256 = x3" by simp
  show ?thesis
    unfolding d2 d3 e3 x1_def [symmetric] using e0 e1 e2 by linarith
qed

lemma replicate_4: "replicate 4 x = [x, x, x, x]"
  by (simp add: numeral_eq_Suc)

lemma specNonce_list:
  "specNonce c = [0, 0, 0, 0, of_nat c, of_nat (c div 256), of_nat (c div 65536),
                  of_nat (c div 16777216), 0, 0, 0, 0]"
  by (simp add: specNonce_def upt_4 replicate_4)

lemma specNonce_nth:
  "specNonce c ! 4 = of_nat c" "specNonce c ! 5 = of_nat (c div 256)"
  "specNonce c ! 6 = of_nat (c div 65536)" "specNonce c ! 7 = of_nat (c div 16777216)"
  by (simp_all add: specNonce_list)

lemma le_decode:
  assumes "c < 2 ^ 32"
  shows "(\<Sum>i<4. unat (specNonce c ! (4 + i)) * 256 ^ i) = c"
proof -
  have "c div 16777216 < 256" using assms by simp
  then have "c div 16777216 mod 256 = c div 16777216" by simp
  with digits [OF assms] show ?thesis
    by (simp add: sum4 specNonce_nth unat_of_nat)
qed

lemma specNonce_inj:
  assumes "c < 2 ^ 32" "d < 2 ^ 32" "specNonce c = specNonce d"
  shows "c = d"
proof -
  have "(\<Sum>i<4. unat (specNonce c ! (4 + i)) * 256 ^ i)
        = (\<Sum>i<4. unat (specNonce d ! (4 + i)) * 256 ^ i)"
    by (simp only: assms(3))
  then show ?thesis
    by (simp only: le_decode [OF assms(1)] le_decode [OF assms(2)])
qed

lemma length_specNonce: "length (specNonce c) = 12"
  by (simp add: specNonce_def)

lemma specNonce_zeros: "i < 4 \<or> (8 \<le> i \<and> i < 12) \<Longrightarrow> specNonce c ! i = 0"
  by (auto simp add: specNonce_def nth_append)

lemma specSeal_Nil: "specSeal A key k [] = []"
  by (simp add: specSeal_def)

lemma specSeal_Cons:
  "specSeal A key k (chunk # chunks)
   = crypto_aead_encrypt A chunk (specNonce k) key # specSeal A key (Suc k) chunks"
proof -
  have "[k..<k + length (chunk # chunks)] = k # [Suc k..<Suc k + length chunks]"
    by (subst upt_rec) simp
  then show ?thesis unfolding specSeal_def by simp
qed

lemma specSeal_append:
  "specSeal A key k (xs @ ys) = specSeal A key k xs @ specSeal A key (k + length xs) ys"
  by (induction xs arbitrary: k) (simp_all add: specSeal_Nil specSeal_Cons)

lemma length_specSeal: "length (specSeal A key k chunks) = length chunks"
  by (simp add: specSeal_def)

lemma specOpen_Nil: "specOpen A key k [] = []"
  by (simp add: specOpen_def)

lemma specOpen_Cons:
  "specOpen A key k (frame # frames)
   = (case crypto_aead_decrypt A frame (specNonce k) key of
        None \<Rightarrow> specOpen A key (Suc k) frames
      | Some d \<Rightarrow> d # specOpen A key (Suc k) frames)"
proof -
  have "[k..<k + length (frame # frames)] = k # [Suc k..<Suc k + length frames]"
    by (subst upt_rec) simp
  then show ?thesis unfolding specOpen_def by (simp split: option.splits)
qed

lemma specOpen_append:
  "specOpen A key k (xs @ ys) = specOpen A key k xs @ specOpen A key (k + length xs) ys"
  by (induction xs arbitrary: k) (simp_all add: specOpen_Nil specOpen_Cons split: option.splits)

lemma specFragment_Nil: "specFragment [] = []"
  by (simp add: specFragment.simps)

lemma specFragment_nonempty:
  "pdu \<noteq> [] \<Longrightarrow> specFragment pdu = take 496 pdu # specFragment (drop 496 pdu)"
  by (subst specFragment.simps) simp

lemma slice_frame:
  "slice pdu position (position + min (length pdu - position) 496) = take 496 (drop position pdu)"
  by (simp add: slice_def min_def)

lemma drop_frame:
  "drop (position + min (length pdu - position) 496) pdu = drop 496 (drop position pdu)"
  by (simp add: min_def add.commute)

lemma encryptWhile_closed:
  assumes "sessionKeys s = Some keys"
    and "c2aCounter s + length (specFragment (drop position pdu)) \<le> 2 ^ 32"
  shows "encryptWhile A pdu position acc s
         = (Inr (acc @ specSeal A (ControllerToAccessoryKey keys) (c2aCounter s)
                         (specFragment (drop position pdu))),
            s\<lparr>c2aCounter := c2aCounter s + length (specFragment (drop position pdu))\<rparr>)"
  using assms
proof (induction A pdu position acc s rule: encryptWhile.induct)
  case (1 A pdu position acc s)
  show ?case
  proof (cases "position < length pdu")
    case False
    then have "drop position pdu = []" by simp
    with False show ?thesis
      by (simp add: encryptWhile.simps specFragment_Nil specSeal_Nil)
  next
    case True
    let ?s' = "s\<lparr>c2aCounter := c2aCounter s + 1\<rparr>"
    let ?fl = "min (length pdu - position) 496"
    let ?frame = "crypto_aead_encrypt A (slice pdu position (position + ?fl))
                    (specNonce (c2aCounter s)) (ControllerToAccessoryKey keys)"
    from True have ne: "drop position pdu \<noteq> []" by simp
    have frag: "specFragment (drop position pdu)
                = take 496 (drop position pdu) # specFragment (drop (position + ?fl) pdu)"
      using specFragment_nonempty [OF ne] by (simp only: drop_frame)
    from "1.prems"(2) have lt: "c2aCounter s < 2 ^ 32" by (simp add: frag)
    have nonce: "writeUInt32LE (Buffer_alloc 12) (c2aCounter s) 4 = Inr (specNonce (c2aCounter s))"
      by (rule writeNonce_spec [OF lt])
    have keys': "sessionKeys ?s' = Some keys" using "1.prems"(1) by simp
    have range': "c2aCounter ?s' + length (specFragment (drop (position + ?fl) pdu)) \<le> 2 ^ 32"
      using "1.prems"(2) by (simp add: frag)
    have ih: "encryptWhile A pdu (position + ?fl) (acc @ [?frame]) ?s'
              = (Inr ((acc @ [?frame]) @ specSeal A (ControllerToAccessoryKey keys) (c2aCounter ?s')
                         (specFragment (drop (position + ?fl) pdu))),
                 ?s'\<lparr>c2aCounter := c2aCounter ?s' + length (specFragment (drop (position + ?fl) pdu))\<rparr>)"
      by (rule "1.IH" [OF True refl nonce refl keys' refl keys' range'])
    have "encryptWhile A pdu position acc s = encryptWhile A pdu (position + ?fl) (acc @ [?frame]) ?s'"
      by (subst encryptWhile.simps) (simp add: True nonce "1.prems"(1) Let_def)
    also note ih
    finally show ?thesis
      by (simp add: frag specSeal_Cons slice_frame)
  qed
qed

lemma encryptFor_closed:
  assumes "sessionKeys s = Some keys"
    and "c2aCounter s + length (concat (map specFragment pdus)) \<le> 2 ^ 32"
  shows "encryptFor A pdus acc s
         = (Inr (acc @ specSeal A (ControllerToAccessoryKey keys) (c2aCounter s)
                         (concat (map specFragment pdus))),
            s\<lparr>c2aCounter := c2aCounter s + length (concat (map specFragment pdus))\<rparr>)"
  using assms
proof (induction pdus arbitrary: acc s)
  case Nil
  then show ?case by (simp add: specSeal_Nil)
next
  case (Cons pdu rest)
  let ?n = "length (specFragment pdu)"
  let ?s' = "s\<lparr>c2aCounter := c2aCounter s + ?n\<rparr>"
  let ?acc' = "acc @ specSeal A (ControllerToAccessoryKey keys) (c2aCounter s) (specFragment pdu)"
  have w: "encryptWhile A pdu 0 acc s = (Inr ?acc', ?s')"
    using encryptWhile_closed [of s keys 0 pdu A acc] Cons.prems by simp
  have keys': "sessionKeys ?s' = Some keys" using Cons.prems(1) by simp
  have range': "c2aCounter ?s' + length (concat (map specFragment rest)) \<le> 2 ^ 32"
    using Cons.prems(2) by simp
  show ?case
    using Cons.IH [OF keys' range', of ?acc']
    by (simp add: w specSeal_append add.assoc)
qed

lemma decryptFor_closed:
  assumes "sessionKeys s = Some keys"
    and "a2cCounter s + length pdus \<le> 2 ^ 32"
  shows "decryptFor A pdus acc s
         = (Inr (acc @ specOpen A (AccessoryToControllerKey keys) (a2cCounter s) pdus),
            s\<lparr>a2cCounter := a2cCounter s + length pdus\<rparr>)"
  using assms
proof (induction pdus arbitrary: acc s)
  case Nil
  then show ?case by (simp add: specOpen_Nil)
next
  case (Cons pdu rest)
  let ?s' = "s\<lparr>a2cCounter := a2cCounter s + 1\<rparr>"
  from Cons.prems(2) have lt: "a2cCounter s < 2 ^ 32" by simp
  have nonce: "writeUInt32LE (Buffer_alloc 12) (a2cCounter s) 4 = Inr (specNonce (a2cCounter s))"
    by (rule writeNonce_spec [OF lt])
  have keys': "sessionKeys ?s' = Some keys" using Cons.prems(1) by simp
  have range': "a2cCounter ?s' + length rest \<le> 2 ^ 32" using Cons.prems(2) by simp
  show ?case
    using Cons.IH [OF keys' range']
    by (simp add: nonce Cons.prems(1) specOpen_Cons Let_def split: option.splits)
qed

lemma specOpen_specSeal:
  assumes "\<And>m n k. crypto_aead_decrypt A (crypto_aead_encrypt A m n k) n k = Some m"
  shows "specOpen A key k (specSeal A key k chunks) = chunks"
  by (induction chunks arbitrary: k) (simp_all add: specSeal_Nil specSeal_Cons specOpen_Nil specOpen_Cons assms)

lemma concat_specFragment: "concat (specFragment pdu) = pdu"
proof (induction pdu rule: specFragment.induct)
  case (1 pdu)
  show ?case
  proof (cases "pdu = []")
    case True
    then show ?thesis by (simp add: specFragment_Nil)
  next
    case False
    with 1 show ?thesis by (simp add: specFragment_nonempty)
  qed
qed

lemma specFragment_bound: "chunk \<in> set (specFragment pdu) \<Longrightarrow> 0 < length chunk \<and> length chunk \<le> 496"
proof (induction pdu rule: specFragment.induct)
  case (1 pdu)
  show ?case
  proof (cases "pdu = []")
    case True
    with "1.prems" show ?thesis by (simp add: specFragment_Nil)
  next
    case False
    with 1 show ?thesis by (auto simp add: specFragment_nonempty)
  qed
qed

lemma specFragment_496: "length pdu = 496 \<Longrightarrow> specFragment pdu = [pdu]"
  by (subst specFragment.simps) (auto simp add: specFragment_Nil)

lemma specFragment_497:
  "length pdu = 497 \<Longrightarrow> specFragment pdu = [take 496 pdu, drop 496 pdu]"
  "length pdu = 497 \<Longrightarrow> length (drop 496 pdu) = 1"
proof -
  assume l: "length pdu = 497"
  then have ne: "pdu \<noteq> []" by auto
  have l2: "length (drop 496 pdu) = 1" using l by simp
  then have ne2: "drop 496 pdu \<noteq> []" by auto
  show "specFragment pdu = [take 496 pdu, drop 496 pdu]"
    using l by (simp add: specFragment_nonempty [OF ne] specFragment_nonempty [OF ne2] specFragment_Nil)
  show "length (drop 496 pdu) = 1" by (rule l2)
qed

section \<open>The drain and the write loop\<close>

lemma drain_data_steps:
  assumes "\<forall>i<length ds. read_cb P (calls s @ replicate (Suc i) (Read c)) = CbOk (Some (ds ! i))
                          \<and> 0 < length (ds ! i)"
  shows "readCharacteristicInner P A c pdus s
         = readCharacteristicInner P A c (pdus @ ds)
             (s\<lparr>calls := calls s @ replicate (length ds) (Read c)\<rparr>)"
  using assms
proof (induction ds arbitrary: s pdus)
  case Nil
  then show ?case by simp
next
  case (Cons d ds)
  let ?s1 = "s\<lparr>calls := calls s @ [Read c]\<rparr>"
  from Cons.prems have first: "read_cb P (calls s @ [Read c]) = CbOk (Some d)" and pos: "0 < length d"
    by auto
  have rest: "\<forall>i<length ds. read_cb P (calls ?s1 @ replicate (Suc i) (Read c)) = CbOk (Some (ds ! i))
                           \<and> 0 < length (ds ! i)"
  proof (intro allI impI)
    fix i assume "i < length ds"
    then have "Suc i < length (d # ds)" by simp
    with Cons.prems have "read_cb P (calls s @ replicate (Suc (Suc i)) (Read c)) = CbOk (Some ((d # ds) ! Suc i))
                          \<and> 0 < length ((d # ds) ! Suc i)"
      by blast
    then show "read_cb P (calls ?s1 @ replicate (Suc i) (Read c)) = CbOk (Some (ds ! i))
               \<and> 0 < length (ds ! i)"
      by simp
  qed
  have "readCharacteristicInner P A c pdus s = readCharacteristicInner P A c (pdus @ [d]) ?s1"
    using pos by (subst readCharacteristicInner.simps) (simp add: first Let_def)
  also have "\<dots> = readCharacteristicInner P A c ((pdus @ [d]) @ ds)
                      (?s1\<lparr>calls := calls ?s1 @ replicate (length ds) (Read c)\<rparr>)"
    by (rule Cons.IH [OF rest])
  finally show ?case by simp
qed

lemma drain_error:
  assumes "\<forall>i<length ds. read_cb P (calls s @ replicate (Suc i) (Read c)) = CbOk (Some (ds ! i))
                          \<and> 0 < length (ds ! i)"
    and "read_cb P (calls s @ replicate (Suc (length ds)) (Read c)) = CbError err"
  shows "readCharacteristicInner P A c pdus s
         = Some (Rejected err, s\<lparr>calls := calls s @ replicate (Suc (length ds)) (Read c)\<rparr>)"
proof -
  let ?s' = "s\<lparr>calls := calls s @ replicate (length ds) (Read c)\<rparr>"
  have "calls ?s' @ [Read c] = calls s @ replicate (Suc (length ds)) (Read c)"
    by (simp add: replicate_append_same)
  then have "readCharacteristicInner P A c (pdus @ ds) ?s'
        = Some (Rejected err, s\<lparr>calls := calls s @ replicate (Suc (length ds)) (Read c)\<rparr>)"
    using assms(2) by (subst readCharacteristicInner.simps) (simp add: replicate_append_same Let_def)
  with drain_data_steps [OF assms(1)] show ?thesis by simp
qed

lemma drain_end:
  assumes "\<forall>i<length ds. read_cb P (calls s @ replicate (Suc i) (Read c)) = CbOk (Some (ds ! i))
                          \<and> 0 < length (ds ! i)"
    and "read_cb P (calls s @ replicate (Suc (length ds)) (Read c)) = CbOk None
         \<or> read_cb P (calls s @ replicate (Suc (length ds)) (Read c)) = CbOk (Some [])"
  shows "readCharacteristicInner P A c pdus s
         = Some (drained A (pdus @ ds) (s\<lparr>calls := calls s @ replicate (Suc (length ds)) (Read c)\<rparr>))"
proof -
  let ?s' = "s\<lparr>calls := calls s @ replicate (length ds) (Read c)\<rparr>"
  have "readCharacteristicInner P A c (pdus @ ds) ?s'
        = Some (drained A (pdus @ ds) (s\<lparr>calls := calls s @ replicate (Suc (length ds)) (Read c)\<rparr>))"
    using assms(2) by (subst readCharacteristicInner.simps) (auto simp add: replicate_append_same Let_def)
  with drain_data_steps [OF assms(1)] show ?thesis by simp
qed

lemma writeFor_acked:
  assumes "\<forall>i<length pdus. write_cb P (calls s @ map (\<lambda>p. Write c p False) (take (Suc i) pdus)) = CbOk ()"
  shows "writeFor P c pdus promises s
         = (promises @ replicate (length pdus) (Fulfilled ()),
            s\<lparr>calls := calls s @ map (\<lambda>p. Write c p False) pdus\<rparr>)"
  using assms
proof (induction pdus arbitrary: promises s)
  case Nil
  then show ?case by simp
next
  case (Cons pdu rest)
  let ?s' = "s\<lparr>calls := calls s @ [Write c pdu False]\<rparr>"
  from Cons.prems have first: "write_cb P (calls s @ [Write c pdu False]) = CbOk ()"
    by auto
  have rest: "\<forall>i<length rest. write_cb P (calls ?s' @ map (\<lambda>p. Write c p False) (take (Suc i) rest)) = CbOk ()"
  proof (intro allI impI)
    fix i assume "i < length rest"
    then have "Suc i < length (pdu # rest)" by simp
    with Cons.prems have "write_cb P (calls s @ map (\<lambda>p. Write c p False) (take (Suc (Suc i)) (pdu # rest))) = CbOk ()"
      by blast
    then show "write_cb P (calls ?s' @ map (\<lambda>p. Write c p False) (take (Suc i) rest)) = CbOk ()"
      by simp
  qed
  show ?case
    using Cons.IH [OF rest, of "promises @ [Fulfilled ()]"]
    by (simp add: first promiseOfCallback_def replicate_app_Cons_same)
qed

lemma firstRejected_fulfilled: "firstRejected (replicate n (Fulfilled x)) = None"
  by (induction n) simp_all

lemma Promise_all_fulfilled: "Promise_all (replicate n (Fulfilled x)) = Fulfilled ()"
  by (simp add: Promise_all_def firstRejected_fulfilled)

lemma exampleAead_opens:
  "crypto_aead_decrypt exampleAead (crypto_aead_encrypt exampleAead m n k) n k = Some m"
  by (simp add: exampleAead_def exampleTag_def)

lemma specFragment_small: "pdu \<noteq> [] \<Longrightarrow> length pdu \<le> 496 \<Longrightarrow> specFragment pdu = [pdu]"
  by (simp add: specFragment_nonempty specFragment_Nil)

lemma encryptPdus_closed:
  assumes "sessionKeys s = Some keys"
    and "c2aCounter s + length (concat (map specFragment pdus)) \<le> 2 ^ 32"
  shows "encryptPdus A pdus s
         = (Inr (specSeal A (ControllerToAccessoryKey keys) (c2aCounter s)
                   (concat (map specFragment pdus))),
            s\<lparr>c2aCounter := c2aCounter s + length (concat (map specFragment pdus))\<rparr>)"
  using encryptFor_closed [OF assms, of A "[]"] by (simp add: encryptPdus_def)

lemma decryptPdus_closed:
  assumes "sessionKeys s = Some keys"
    and "a2cCounter s + length frames \<le> 2 ^ 32"
  shows "decryptPdus A frames s
         = (Inr (specOpen A (AccessoryToControllerKey keys) (a2cCounter s) frames),
            s\<lparr>a2cCounter := a2cCounter s + length frames\<rparr>)"
  using decryptFor_closed [OF assms, of A "[]"] by (simp add: decryptPdus_def)

lemma distinct_specNonce:
  assumes "k + n \<le> 2 ^ 32"
  shows "distinct (map specNonce [k..<k + n])"
proof -
  have "inj_on specNonce (set [k..<k + n])"
  proof (rule inj_onI)
    fix c d
    assume "c \<in> set [k..<k + n]" "d \<in> set [k..<k + n]" "specNonce c = specNonce d"
    with assms show "c = d" by (intro specNonce_inj) auto
  qed
  then show ?thesis by (simp add: distinct_map)
qed

lemma specNonce_structure:
  assumes "c < 2 ^ 32"
  shows "writeUInt32LE (Buffer_alloc 12) c 4 = Inr (specNonce c)
         \<and> length (specNonce c) = 12
         \<and> (\<forall>i<12. i < 4 \<or> 8 \<le> i \<longrightarrow> specNonce c ! i = 0)
         \<and> (\<Sum>i<4. unat (specNonce c ! (4 + i)) * 256 ^ i) = c"
  using assms by (simp add: writeNonce_spec length_specNonce specNonce_zeros le_decode)

section \<open>Claims about the codec\<close>

text \<open>
  C6. Fragmentation during encryption: with session keys set and the counter in range,
  \<open>_encryptPdus\<close> of one PDU returns one frame per chunk of the PDU, the chunks being
  sliced off in order, 496 bytes at a time. No chunk is longer than 496 bytes, the
  chunks concatenated are the PDU, a PDU of 496 bytes is one chunk and a PDU of 497
  bytes is two chunks of 496 bytes and 1 byte.
\<close>

theorem fragmentation_bound:
  assumes "sessionKeys s = Some keys"
    and "c2aCounter s + length (specFragment pdu) \<le> 2 ^ 32"
  shows "fst (encryptPdus A [pdu] s)
           = Inr (map2 (\<lambda>chunk c. crypto_aead_encrypt A chunk (specNonce c)
                                     (ControllerToAccessoryKey keys))
                    (specFragment pdu)
                    [c2aCounter s..<c2aCounter s + length (specFragment pdu)])
         \<and> (\<forall>chunk \<in> set (specFragment pdu). 0 < length chunk \<and> length chunk \<le> 496)
         \<and> concat (specFragment pdu) = pdu
         \<and> (length pdu = 496 \<longrightarrow> specFragment pdu = [pdu])
         \<and> (length pdu = 497 \<longrightarrow>
              specFragment pdu = [take 496 pdu, drop 496 pdu]
              \<and> length (take 496 pdu) = 496 \<and> length (drop 496 pdu) = 1)"
proof -
  have "c2aCounter s + length (concat (map specFragment [pdu])) \<le> 2 ^ 32"
    using assms(2) by simp
  from encryptPdus_closed [OF assms(1) this, of A]
  have frames: "fst (encryptPdus A [pdu] s)
        = Inr (map2 (\<lambda>chunk c. crypto_aead_encrypt A chunk (specNonce c)
                                  (ControllerToAccessoryKey keys))
                 (specFragment pdu)
                 [c2aCounter s..<c2aCounter s + length (specFragment pdu)])"
    by (simp add: specSeal_def)
  have bound: "\<forall>chunk \<in> set (specFragment pdu). 0 < length chunk \<and> length chunk \<le> 496"
    using specFragment_bound by blast
  have one: "length pdu = 496 \<longrightarrow> specFragment pdu = [pdu]"
    by (simp add: specFragment_496)
  have two: "length pdu = 497 \<longrightarrow>
               specFragment pdu = [take 496 pdu, drop 496 pdu]
               \<and> length (take 496 pdu) = 496 \<and> length (drop 496 pdu) = 1"
    by (simp add: specFragment_497)
  from frames bound concat_specFragment [of pdu] one two show ?thesis
    by blast
qed

theorem fragmentation_bound_witness:
  "sessionKeys (setSessionKeys (Some exampleKeys) constructor) = Some exampleKeys
   \<and> c2aCounter (setSessionKeys (Some exampleKeys) constructor) + length (specFragment [1, 2, 3]) \<le> 2 ^ 32
   \<and> fst (encryptPdus exampleAead [[1, 2, 3]] (setSessionKeys (Some exampleKeys) constructor))
       = Inr [[1, 2, 3] @ exampleTag (specNonce 0) [1, 2, 3]]"
proof -
  have k: "sessionKeys (setSessionKeys (Some exampleKeys) constructor) = Some exampleKeys"
    by (simp add: setSessionKeys_def)
  have f: "specFragment [1, 2, 3] = [[1, 2, 3]]"
    by (simp add: specFragment_small)
  have r: "c2aCounter (setSessionKeys (Some exampleKeys) constructor) + length (specFragment [1, 2, 3]) \<le> 2 ^ 32"
    by (simp add: f setSessionKeys_def constructor_def)
  show ?thesis
    using fragmentation_bound [OF k r, of exampleAead] k r
    by (simp add: f setSessionKeys_def constructor_def exampleAead_def exampleKeys_def)
qed

text \<open>
  C5. With session keys set and the counters in range, the frames that \<open>_encryptPdus\<close>
  returns are the chunks of the PDUs, each encrypted under the nonce of the next value
  of \<open>c2aCounter\<close>, starting from its value at the call, and only \<open>c2aCounter\<close> changes;
  the PDUs that \<open>_decryptPdus\<close> returns are the frames opened under the nonces of the
  successive values of \<open>a2cCounter\<close>, and only \<open>a2cCounter\<close> changes. The nonce of a
  counter value is what \<open>writeUInt32LE\<close> at offset 4 leaves in 12 zero bytes: 12 bytes,
  zero outside offsets 4 to 7, which read as a little-endian number give the counter
  back. The nonces of either run are pairwise different.
\<close>

theorem nonce_counter_sequence:
  assumes "sessionKeys s = Some keys"
    and "c2aCounter s + length (concat (map specFragment pdus)) \<le> 2 ^ 32"
    and "a2cCounter s + length frames \<le> 2 ^ 32"
  shows "encryptPdus A pdus s
           = (Inr (map2 (\<lambda>chunk c. crypto_aead_encrypt A chunk (specNonce c)
                                      (ControllerToAccessoryKey keys))
                     (concat (map specFragment pdus))
                     [c2aCounter s..<c2aCounter s + length (concat (map specFragment pdus))]),
              s\<lparr>c2aCounter := c2aCounter s + length (concat (map specFragment pdus))\<rparr>)
         \<and> decryptPdus A frames s
           = (Inr (List.map_filter
                     (\<lambda>(frame, c). crypto_aead_decrypt A frame (specNonce c)
                                      (AccessoryToControllerKey keys))
                     (zip frames [a2cCounter s..<a2cCounter s + length frames])),
              s\<lparr>a2cCounter := a2cCounter s + length frames\<rparr>)
         \<and> (\<forall>c<2 ^ 32.
               writeUInt32LE (Buffer_alloc 12) c 4 = Inr (specNonce c)
               \<and> length (specNonce c) = 12
               \<and> (\<forall>i<12. i < 4 \<or> 8 \<le> i \<longrightarrow> specNonce c ! i = 0)
               \<and> (\<Sum>i<4. unat (specNonce c ! (4 + i)) * 256 ^ i) = c)
         \<and> distinct (map specNonce
               [c2aCounter s..<c2aCounter s + length (concat (map specFragment pdus))])
         \<and> distinct (map specNonce [a2cCounter s..<a2cCounter s + length frames])"
proof -
  have e: "encryptPdus A pdus s
           = (Inr (map2 (\<lambda>chunk c. crypto_aead_encrypt A chunk (specNonce c)
                                      (ControllerToAccessoryKey keys))
                     (concat (map specFragment pdus))
                     [c2aCounter s..<c2aCounter s + length (concat (map specFragment pdus))]),
              s\<lparr>c2aCounter := c2aCounter s + length (concat (map specFragment pdus))\<rparr>)"
    using encryptPdus_closed [OF assms(1,2), of A] by (simp only: specSeal_def)
  have d: "decryptPdus A frames s
           = (Inr (List.map_filter
                     (\<lambda>(frame, c). crypto_aead_decrypt A frame (specNonce c)
                                      (AccessoryToControllerKey keys))
                     (zip frames [a2cCounter s..<a2cCounter s + length frames])),
              s\<lparr>a2cCounter := a2cCounter s + length frames\<rparr>)"
    using decryptPdus_closed [OF assms(1,3), of A] by (simp only: specOpen_def)
  have n: "\<forall>c<2 ^ 32.
               writeUInt32LE (Buffer_alloc 12) c 4 = Inr (specNonce c)
               \<and> length (specNonce c) = 12
               \<and> (\<forall>i<12. i < 4 \<or> 8 \<le> i \<longrightarrow> specNonce c ! i = 0)
               \<and> (\<Sum>i<4. unat (specNonce c ! (4 + i)) * 256 ^ i) = c"
    using specNonce_structure by blast
  from e d n distinct_specNonce [OF assms(2)] distinct_specNonce [OF assms(3)]
  show ?thesis by blast
qed

theorem nonce_counter_sequence_witness:
  "sessionKeys (setSessionKeys (Some exampleKeys) constructor) = Some exampleKeys
   \<and> c2aCounter (setSessionKeys (Some exampleKeys) constructor)
       + length (concat (map specFragment [[1, 2, 3], [4]])) \<le> 2 ^ 32
   \<and> a2cCounter (setSessionKeys (Some exampleKeys) constructor) + length [[], [5 :: byte]] \<le> 2 ^ 32
   \<and> c2aCounter (snd (encryptPdus exampleAead [[1, 2, 3], [4]]
                         (setSessionKeys (Some exampleKeys) constructor))) = 2
   \<and> a2cCounter (snd (decryptPdus exampleAead [[], [5]]
                         (setSessionKeys (Some exampleKeys) constructor))) = 2"
proof -
  let ?s = "setSessionKeys (Some exampleKeys) constructor"
  have k: "sessionKeys ?s = Some exampleKeys"
    by (simp add: setSessionKeys_def)
  have f: "concat (map specFragment [[1, 2, 3], [4]]) = [[1, 2, 3], [4]]"
    by (simp add: specFragment_small)
  have r1: "c2aCounter ?s + length (concat (map specFragment [[1, 2, 3], [4]])) \<le> 2 ^ 32"
    by (simp only: f) (simp add: setSessionKeys_def constructor_def)
  have r2: "a2cCounter ?s + length [[], [5 :: byte]] \<le> 2 ^ 32"
    by (simp add: setSessionKeys_def constructor_def)
  from nonce_counter_sequence [OF k r1 r2, of exampleAead]
  have "c2aCounter (snd (encryptPdus exampleAead [[1, 2, 3], [4]] ?s))
          = c2aCounter ?s + length (concat (map specFragment [[1, 2, 3], [4]]))"
    and "a2cCounter (snd (decryptPdus exampleAead [[], [5]] ?s)) = a2cCounter ?s + length [[], [5 :: byte]]"
    by simp_all
  then have "c2aCounter (snd (encryptPdus exampleAead [[1, 2, 3], [4]] ?s)) = 2"
    and "a2cCounter (snd (decryptPdus exampleAead [[], [5]] ?s)) = 2"
    by (simp_all only: f) (simp_all add: setSessionKeys_def constructor_def)
  with k r1 r2 show ?thesis by blast
qed

text \<open>
  C7. Round trip: when opening undoes sealing for the cipher, the receiving side holds
  as its accessory-to-controller key the controller-to-accessory key of the sending
  side, the receiving counter equals the sending counter and the counter is in range,
  then \<open>_decryptPdus\<close> of the frames that \<open>_encryptPdus\<close> returns for a PDU \<open>P\<close> gives
  the chunks of \<open>P\<close>, and these concatenated are \<open>P\<close>.
\<close>

theorem encrypt_decrypt_roundtrip:
  assumes "\<forall>m n k. crypto_aead_decrypt A (crypto_aead_encrypt A m n k) n k = Some m"
    and "sessionKeys s = Some ks"
    and "sessionKeys t = Some kt"
    and "AccessoryToControllerKey kt = ControllerToAccessoryKey ks"
    and "a2cCounter t = c2aCounter s"
    and "c2aCounter s + length (specFragment P) \<le> 2 ^ 32"
  shows "\<exists>frames s'. encryptPdus A [P] s = (Inr frames, s')
           \<and> length frames = length (specFragment P)
           \<and> fst (decryptPdus A frames t) = Inr (specFragment P)
           \<and> concat (specFragment P) = P"
proof -
  let ?frames = "specSeal A (ControllerToAccessoryKey ks) (c2aCounter s) (specFragment P)"
  have "c2aCounter s + length (concat (map specFragment [P])) \<le> 2 ^ 32"
    using assms(6) by simp
  from encryptPdus_closed [OF assms(2) this, of A]
  have e: "encryptPdus A [P] s
           = (Inr ?frames, s\<lparr>c2aCounter := c2aCounter s + length (specFragment P)\<rparr>)"
    by simp
  have l: "length ?frames = length (specFragment P)"
    by (rule length_specSeal)
  have "a2cCounter t + length ?frames \<le> 2 ^ 32"
    using assms(5,6) by (simp add: l)
  from decryptPdus_closed [OF assms(3) this, of A]
  have "fst (decryptPdus A ?frames t)
        = Inr (specOpen A (ControllerToAccessoryKey ks) (c2aCounter s) ?frames)"
    by (simp add: assms(4,5))
  also have "specOpen A (ControllerToAccessoryKey ks) (c2aCounter s) ?frames = specFragment P"
    using assms(1) by (intro specOpen_specSeal) simp
  finally have d: "fst (decryptPdus A ?frames t) = Inr (specFragment P)" .
  from e l d concat_specFragment [of P] show ?thesis by blast
qed

theorem encrypt_decrypt_roundtrip_witness:
  "(\<forall>m n k. crypto_aead_decrypt exampleAead (crypto_aead_encrypt exampleAead m n k) n k = Some m)
   \<and> sessionKeys (setSessionKeys (Some exampleKeys) constructor) = Some exampleKeys
   \<and> AccessoryToControllerKey exampleKeys = ControllerToAccessoryKey exampleKeys
   \<and> a2cCounter (setSessionKeys (Some exampleKeys) constructor)
       = c2aCounter (setSessionKeys (Some exampleKeys) constructor)
   \<and> c2aCounter (setSessionKeys (Some exampleKeys) constructor) + length (specFragment [1, 2, 3]) \<le> 2 ^ 32
   \<and> (\<exists>frames s'.
         encryptPdus exampleAead [[1, 2, 3]] (setSessionKeys (Some exampleKeys) constructor)
           = (Inr frames, s')
         \<and> fst (decryptPdus exampleAead frames (setSessionKeys (Some exampleKeys) constructor))
           = Inr [[1, 2, 3]])"
proof -
  let ?s = "setSessionKeys (Some exampleKeys) constructor"
  have a: "\<forall>m n k. crypto_aead_decrypt exampleAead (crypto_aead_encrypt exampleAead m n k) n k = Some m"
    by (simp add: exampleAead_opens)
  have k: "sessionKeys ?s = Some exampleKeys"
    by (simp add: setSessionKeys_def)
  have m: "AccessoryToControllerKey exampleKeys = ControllerToAccessoryKey exampleKeys"
    by (simp add: exampleKeys_def)
  have c: "a2cCounter ?s = c2aCounter ?s"
    by (simp add: setSessionKeys_def constructor_def)
  have f: "specFragment [1, 2, 3] = [[1, 2, 3]]"
    by (simp add: specFragment_small)
  have r: "c2aCounter ?s + length (specFragment [1, 2, 3]) \<le> 2 ^ 32"
    by (simp add: f setSessionKeys_def constructor_def)
  from encrypt_decrypt_roundtrip [OF a k k m c r]
  obtain frames s' where "encryptPdus exampleAead [[1, 2, 3]] ?s = (Inr frames, s')"
    and "fst (decryptPdus exampleAead frames ?s) = Inr (specFragment [1, 2, 3])"
    by blast
  then have "\<exists>frames s'. encryptPdus exampleAead [[1, 2, 3]] ?s = (Inr frames, s')
          \<and> fst (decryptPdus exampleAead frames ?s) = Inr [[1, 2, 3]]"
    by (simp add: f)
  with a k m c r show ?thesis by blast
qed

text \<open>
  C4. With session keys set and the counter in range, take any frame of the list handed
  to \<open>_decryptPdus\<close>, with the frames \<open>xs\<close> before it and \<open>ys\<close> after it. No exception
  leaves \<open>_decryptPdus\<close>; its result is what it returns for \<open>xs\<close>, then the plaintext of
  the frame if the frame opens under the nonce of its counter value and nothing if it
  does not, then what it returns for \<open>ys\<close> with the counter one further. The counter at
  the end is the same in both cases: one step per frame.
\<close>

theorem decrypt_drops_failed_frame:
  assumes "sessionKeys s = Some keys"
    and "a2cCounter s + length (xs @ frame # ys) \<le> 2 ^ 32"
  shows "\<exists>dx s1 dy s2.
           decryptPdus A xs s = (Inr dx, s1)
           \<and> decryptPdus A ys (s1\<lparr>a2cCounter := a2cCounter s1 + 1\<rparr>) = (Inr dy, s2)
           \<and> a2cCounter s2 = a2cCounter s + length xs + 1 + length ys
           \<and> decryptPdus A (xs @ frame # ys) s
             = (Inr (dx @ (case crypto_aead_decrypt A frame (specNonce (a2cCounter s + length xs))
                                  (AccessoryToControllerKey keys) of
                             None \<Rightarrow> []
                           | Some decryptedData \<Rightarrow> [decryptedData]) @ dy),
                s2)"
proof -
  let ?key = "AccessoryToControllerKey keys"
  let ?k = "a2cCounter s"
  let ?s1 = "s\<lparr>a2cCounter := ?k + length xs\<rparr>"
  let ?s1' = "?s1\<lparr>a2cCounter := a2cCounter ?s1 + 1\<rparr>"
  let ?s2 = "?s1'\<lparr>a2cCounter := a2cCounter ?s1' + length ys\<rparr>"
  have rx: "?k + length xs \<le> 2 ^ 32" using assms(2) by simp
  have x: "decryptPdus A xs s = (Inr (specOpen A ?key ?k xs), ?s1)"
    by (rule decryptPdus_closed [OF assms(1) rx])
  have ky: "sessionKeys ?s1' = Some keys" using assms(1) by simp
  have ry: "a2cCounter ?s1' + length ys \<le> 2 ^ 32" using assms(2) by simp
  have y: "decryptPdus A ys ?s1' = (Inr (specOpen A ?key (a2cCounter ?s1') ys), ?s2)"
    by (rule decryptPdus_closed [OF ky ry])
  have c: "a2cCounter ?s2 = ?k + length xs + 1 + length ys" by simp
  have w: "decryptPdus A (xs @ frame # ys) s
           = (Inr (specOpen A ?key ?k (xs @ frame # ys)),
              s\<lparr>a2cCounter := ?k + length (xs @ frame # ys)\<rparr>)"
    by (rule decryptPdus_closed [OF assms(1,2)])
  have o: "specOpen A ?key ?k (xs @ frame # ys)
           = specOpen A ?key ?k xs
             @ (case crypto_aead_decrypt A frame (specNonce (?k + length xs)) ?key of
                  None \<Rightarrow> [] | Some decryptedData \<Rightarrow> [decryptedData])
             @ specOpen A ?key (a2cCounter ?s1') ys"
    by (simp add: specOpen_append specOpen_Cons split: option.splits)
  have st: "s\<lparr>a2cCounter := ?k + length (xs @ frame # ys)\<rparr> = ?s2" by simp
  from x y c w [unfolded o st] show ?thesis by blast
qed

theorem decrypt_drops_failed_frame_witness:
  "sessionKeys (setSessionKeys (Some exampleKeys) constructor) = Some exampleKeys
   \<and> a2cCounter (setSessionKeys (Some exampleKeys) constructor) + length ([[9]] @ [] # [[8 :: byte]]) \<le> 2 ^ 32
   \<and> crypto_aead_decrypt exampleAead []
        (specNonce (a2cCounter (setSessionKeys (Some exampleKeys) constructor) + length [[9 :: byte]]))
        (AccessoryToControllerKey exampleKeys) = None
   \<and> (\<exists>dx s1 dy s2.
         decryptPdus exampleAead [[9]] (setSessionKeys (Some exampleKeys) constructor) = (Inr dx, s1)
         \<and> decryptPdus exampleAead [[8]] (s1\<lparr>a2cCounter := a2cCounter s1 + 1\<rparr>) = (Inr dy, s2)
         \<and> a2cCounter s2 = 3
         \<and> decryptPdus exampleAead ([[9]] @ [] # [[8]]) (setSessionKeys (Some exampleKeys) constructor)
           = (Inr (dx @ dy), s2))"
proof -
  let ?s = "setSessionKeys (Some exampleKeys) constructor"
  have k: "sessionKeys ?s = Some exampleKeys"
    by (simp add: setSessionKeys_def)
  have r: "a2cCounter ?s + length ([[9]] @ [] # [[8 :: byte]]) \<le> 2 ^ 32"
    by (simp add: setSessionKeys_def constructor_def)
  have n: "crypto_aead_decrypt exampleAead [] (specNonce (a2cCounter ?s + length [[9 :: byte]]))
             (AccessoryToControllerKey exampleKeys) = None"
    by (simp add: exampleAead_def)
  have z: "a2cCounter ?s = 0"
    by (simp add: setSessionKeys_def constructor_def)
  from decrypt_drops_failed_frame [OF k r, of exampleAead]
  obtain dx s1 dy s2 where x: "decryptPdus exampleAead [[9]] ?s = (Inr dx, s1)"
    and y: "decryptPdus exampleAead [[8]] (s1\<lparr>a2cCounter := a2cCounter s1 + 1\<rparr>) = (Inr dy, s2)"
    and c: "a2cCounter s2 = a2cCounter ?s + length [[9 :: byte]] + 1 + length [[8 :: byte]]"
    and w: "decryptPdus exampleAead ([[9]] @ [] # [[8]]) ?s
            = (Inr (dx @ (case crypto_aead_decrypt exampleAead []
                                 (specNonce (a2cCounter ?s + length [[9 :: byte]]))
                                 (AccessoryToControllerKey exampleKeys) of
                            None \<Rightarrow> [] | Some decryptedData \<Rightarrow> [decryptedData]) @ dy),
               s2)"
    by blast
  from c have c': "a2cCounter s2 = 3" by (simp add: z)
  from w have w': "decryptPdus exampleAead ([[9]] @ [] # [[8]]) ?s = (Inr (dx @ dy), s2)"
    by (simp only: n option.case append_Nil)
  from k r n x y c' w' show ?thesis by blast
qed

section \<open>Claims about the connection, the sequencer and the transactions\<close>

text \<open>
  C9. \<open>connect()\<close> on a connection whose state is \<open>CONNECTED\<close> is fulfilled at once
  and leaves the connection as it is, the log of calls on the peripheral included; so
  does a second \<open>connect()\<close> after it.
\<close>

theorem connect_when_connected:
  assumes "state s = CONNECTED"
  shows "connect P s = (Fulfilled Undefined, s)
         \<and> calls (snd (connect P s)) = calls s
         \<and> connect P (snd (connect P s)) = (Fulfilled Undefined, s)
         \<and> calls (snd (connect P (snd (connect P s)))) = calls s"
  using assms by (simp add: connect_def)

theorem connect_when_connected_witness:
  "state (constructor\<lparr>state := CONNECTED\<rparr>) = CONNECTED
   \<and> connect failingPeripheral (constructor\<lparr>state := CONNECTED\<rparr>)
       = (Fulfilled Undefined, constructor\<lparr>state := CONNECTED\<rparr>)
   \<and> calls (snd (connect failingPeripheral (constructor\<lparr>state := CONNECTED\<rparr>))) = []"
proof -
  have h: "state (constructor\<lparr>state := CONNECTED\<rparr>) = CONNECTED" by simp
  from connect_when_connected [OF h, of failingPeripheral] h show ?thesis
    by (simp add: constructor_def)
qed

text \<open>
  C10. When the reads of a drain deliver any number of frames of positive length and the
  next read reports an error, the promise of \<open>_readCharacteristicInner\<close> is rejected
  with that error. The connection is then as before the drain except for the log of
  calls, which has one more read than frames were delivered: the counters are unchanged
  and nothing was thrown, whatever the cipher and the session keys.
\<close>

theorem drain_read_error:
  assumes "\<forall>i<length ds. read_cb P (calls s @ replicate (Suc i) (Read c)) = CbOk (Some (ds ! i))
                          \<and> 0 < length (ds ! i)"
    and "read_cb P (calls s @ replicate (Suc (length ds)) (Read c)) = CbError err"
  shows "readCharacteristicInner P A c pdus s
           = Some (Rejected err, s\<lparr>calls := calls s @ replicate (Suc (length ds)) (Read c)\<rparr>)
         \<and> (\<forall>r s'. readCharacteristicInner P A c pdus s = Some (r, s') \<longrightarrow>
               r = Rejected err \<and> a2cCounter s' = a2cCounter s \<and> c2aCounter s' = c2aCounter s
               \<and> uncaught s' = uncaught s)"
proof -
  have e: "readCharacteristicInner P A c pdus s
           = Some (Rejected err, s\<lparr>calls := calls s @ replicate (Suc (length ds)) (Read c)\<rparr>)"
    by (rule drain_error [OF assms])
  show ?thesis unfolding e by auto
qed

lemma brokenRead_cb:
  "read_cb brokenReadPeripheral h
   = (if length h = 1 then CbOk (Some [1]) else CbError (Str ''read failed''))"
  by (simp add: brokenReadPeripheral_def)

lemma calls_new_keyed: "calls (setSessionKeys (Some exampleKeys) constructor) = []"
  by (simp add: setSessionKeys_def constructor_def)

lemma brokenRead_frames: "\<forall>i<length [[1 :: byte]].
      read_cb brokenReadPeripheral (calls (setSessionKeys (Some exampleKeys) constructor) @ replicate (Suc i) (Read ''chr''))
        = CbOk (Some ([[1]] ! i)) \<and> 0 < length ([[1 :: byte]] ! i)"
  by (simp add: brokenRead_cb calls_new_keyed)

lemma brokenRead_error: "read_cb brokenReadPeripheral
              (calls (setSessionKeys (Some exampleKeys) constructor) @ replicate (Suc (length [[1 :: byte]])) (Read ''chr''))
            = CbError (Str ''read failed'')"
  by (simp add: brokenRead_cb calls_new_keyed)

theorem drain_read_error_witness:
  "read_cb brokenReadPeripheral
     (calls (setSessionKeys (Some exampleKeys) constructor) @ [Read ''chr'']) = CbOk (Some [1])
   \<and> read_cb brokenReadPeripheral
        (calls (setSessionKeys (Some exampleKeys) constructor) @ [Read ''chr'', Read ''chr''])
        = CbError (Str ''read failed'')
   \<and> readCharacteristicInner brokenReadPeripheral exampleAead ''chr'' []
        (setSessionKeys (Some exampleKeys) constructor)
       = Some (Rejected (Str ''read failed''),
               setSessionKeys (Some exampleKeys) constructor
                 \<lparr>calls := [Read ''chr'', Read ''chr'']\<rparr>)"
proof -
  let ?s = "setSessionKeys (Some exampleKeys) constructor"
  from drain_read_error [OF brokenRead_frames brokenRead_error, of exampleAead "[]"]
  have "readCharacteristicInner brokenReadPeripheral exampleAead ''chr'' [] ?s
        = Some (Rejected (Str ''read failed''),
                ?s\<lparr>calls := calls ?s @ replicate (Suc (length [[1 :: byte]])) (Read ''chr'')\<rparr>)"
    by (rule conjunct1)
  then have "readCharacteristicInner brokenReadPeripheral exampleAead ''chr'' [] ?s
        = Some (Rejected (Str ''read failed''), ?s\<lparr>calls := [Read ''chr'', Read ''chr'']\<rparr>)"
    by (simp add: calls_new_keyed)
  moreover have "read_cb brokenReadPeripheral (calls ?s @ [Read ''chr'']) = CbOk (Some [1])"
    by (simp add: brokenRead_cb calls_new_keyed)
  moreover have "read_cb brokenReadPeripheral (calls ?s @ [Read ''chr'', Read ''chr''])
                 = CbError (Str ''read failed'')"
    by (simp add: brokenRead_cb calls_new_keyed)
  ultimately show ?thesis by blast
qed

lemma ackingPeripheral_cb:
  "connect_cb ackingPeripheral h = CbOk ()"
  "disconnect_cb ackingPeripheral h = CbOk ()"
  "discover_cb ackingPeripheral h = CbOk ([''svc''], [''chr''])"
  "write_cb ackingPeripheral h = CbOk ()"
  "read_cb ackingPeripheral h = CbOk (Some [])"
  by (simp_all add: ackingPeripheral_def)

lemma emptyPeripheral_cb:
  "connect_cb emptyPeripheral h = CbOk ()"
  "discover_cb emptyPeripheral h = CbOk ([], [])"
  by (simp_all add: emptyPeripheral_def)

lemma failingPeripheral_cb:
  "read_cb failingPeripheral h = CbError (Str ''link lost'')"
  by (simp add: failingPeripheral_def)

lemma drained_without_keys: "sessionKeys s = None \<Longrightarrow> drained A pdus s = (Fulfilled (PduList pdus), s)"
  by (simp add: drained_def)

lemma writeCharacteristicOp_without_keys:
  assumes "sessionKeys s = None"
    and "\<forall>i<length pdus. write_cb P (calls s @ map (\<lambda>p. Write c p False) (take (Suc i) pdus)) = CbOk ()"
    and "\<forall>i<length ds. read_cb P (calls s @ map (\<lambda>p. Write c p False) pdus @ replicate (Suc i) (Read c))
                            = CbOk (Some (ds ! i)) \<and> 0 < length (ds ! i)"
    and "read_cb P (calls s @ map (\<lambda>p. Write c p False) pdus @ replicate (Suc (length ds)) (Read c)) = CbOk None
         \<or> read_cb P (calls s @ map (\<lambda>p. Write c p False) pdus @ replicate (Suc (length ds)) (Read c)) = CbOk (Some [])"
  shows "writeCharacteristicOp P A c pdus s
         = Some (Fulfilled (PduList ds), pdus,
                 s\<lparr>calls := calls s @ map (\<lambda>p. Write c p False) pdus
                                  @ replicate (Suc (length ds)) (Read c)\<rparr>)"
proof -
  let ?s2 = "s\<lparr>calls := calls s @ map (\<lambda>p. Write c p False) pdus\<rparr>"
  have w: "writeFor P c pdus [] s = (replicate (length pdus) (Fulfilled ()), ?s2)"
    using writeFor_acked [OF assms(2), of "[]"] by simp
  have k: "sessionKeys ?s2 = None" using assms(1) by simp
  have r1: "\<forall>i<length ds. read_cb P (calls ?s2 @ replicate (Suc i) (Read c))
                            = CbOk (Some (ds ! i)) \<and> 0 < length (ds ! i)"
    using assms(3) by simp
  have r2: "read_cb P (calls ?s2 @ replicate (Suc (length ds)) (Read c)) = CbOk None
            \<or> read_cb P (calls ?s2 @ replicate (Suc (length ds)) (Read c)) = CbOk (Some [])"
    using assms(4) by simp
  have d: "readCharacteristicInner P A c [] ?s2
           = Some (Fulfilled (PduList ds),
                   ?s2\<lparr>calls := calls ?s2 @ replicate (Suc (length ds)) (Read c)\<rparr>)"
    using drain_end [OF r1 r2, of A "[]"] k by (simp add: drained_without_keys)
  show ?thesis
    unfolding writeCharacteristicOp_def
    by (simp add: assms(1) w Promise_all_fulfilled d)
qed

lemma writeCharacteristic_without_keys:
  assumes "sessionKeys s = None"
    and "currentOperation s \<noteq> Pending"
    and "\<forall>i<length pdus. write_cb P (calls s @ map (\<lambda>p. Write c p False) (take (Suc i) pdus)) = CbOk ()"
    and "\<forall>i<length ds. read_cb P (calls s @ map (\<lambda>p. Write c p False) pdus @ replicate (Suc i) (Read c))
                            = CbOk (Some (ds ! i)) \<and> 0 < length (ds ! i)"
    and "read_cb P (calls s @ map (\<lambda>p. Write c p False) pdus @ replicate (Suc (length ds)) (Read c)) = CbOk None
         \<or> read_cb P (calls s @ map (\<lambda>p. Write c p False) pdus @ replicate (Suc (length ds)) (Read c)) = CbOk (Some [])"
  shows "writeCharacteristic P A c pdus s
         = Some (Fulfilled (PduList ds),
                 s\<lparr>currentOperation := Fulfilled (PduList ds),
                    calls := calls s @ map (\<lambda>p. Write c p False) pdus
                                  @ replicate (Suc (length ds)) (Read c)\<rparr>)"
proof -
  let ?m = "s\<lparr>currentOperation := Pending\<rparr>"
  have "writeCharacteristicOp P A c pdus ?m
        = Some (Fulfilled (PduList ds), pdus,
                ?m\<lparr>calls := calls ?m @ map (\<lambda>p. Write c p False) pdus
                                 @ replicate (Suc (length ds)) (Read c)\<rparr>)"
    using assms by (intro writeCharacteristicOp_without_keys) simp_all
  then show ?thesis
    using assms(2) unfolding writeCharacteristic_def queueOperation_def
    by (cases "currentOperation s") simp_all
qed

text \<open>
  C3, as the code has it. Without session keys, on a chain that is not stuck, with every
  write acknowledged and the reads delivering the frames \<open>ds\<close> and then nothing:
  \<open>writeCharacteristic\<close> issues one write per PDU, with the PDU whole and as given, then
  reads until the empty read, and is fulfilled with the frames read.
\<close>

theorem write_without_keys:
  assumes "sessionKeys s = None"
    and "currentOperation s \<noteq> Pending"
    and "\<forall>i<length pdus. write_cb P (calls s @ map (\<lambda>p. Write c p False) (take (Suc i) pdus)) = CbOk ()"
    and "\<forall>i<length ds. read_cb P (calls s @ map (\<lambda>p. Write c p False) pdus @ replicate (Suc i) (Read c))
                            = CbOk (Some (ds ! i)) \<and> 0 < length (ds ! i)"
    and "read_cb P (calls s @ map (\<lambda>p. Write c p False) pdus @ replicate (Suc (length ds)) (Read c)) = CbOk None
         \<or> read_cb P (calls s @ map (\<lambda>p. Write c p False) pdus @ replicate (Suc (length ds)) (Read c)) = CbOk (Some [])"
  shows "writeCharacteristic P A c pdus s
         = Some (Fulfilled (PduList ds),
                 s\<lparr>currentOperation := Fulfilled (PduList ds),
                    calls := calls s @ map (\<lambda>p. Write c p False) pdus
                                  @ replicate (Suc (length ds)) (Read c)\<rparr>)"
  by (rule writeCharacteristic_without_keys [OF assms])

lemma write_600_hyps:
  "sessionKeys constructor = None"
  "currentOperation constructor \<noteq> Pending"
  "\<forall>i<length [replicate 600 (0 :: byte)].
      write_cb ackingPeripheral
        (calls constructor @ map (\<lambda>p. Write ''chr'' p False) (take (Suc i) [replicate 600 0])) = CbOk ()"
  "\<forall>i<length ([] :: bytes list).
      read_cb ackingPeripheral
        (calls constructor @ map (\<lambda>p. Write ''chr'' p False) [replicate 600 0] @ replicate (Suc i) (Read ''chr''))
        = CbOk (Some ([] ! i)) \<and> 0 < length (([] :: bytes list) ! i)"
  "read_cb ackingPeripheral
     (calls constructor @ map (\<lambda>p. Write ''chr'' p False) [replicate 600 0]
        @ replicate (Suc (length ([] :: bytes list))) (Read ''chr'')) = CbOk None
   \<or> read_cb ackingPeripheral
     (calls constructor @ map (\<lambda>p. Write ''chr'' p False) [replicate 600 0]
        @ replicate (Suc (length ([] :: bytes list))) (Read ''chr'')) = CbOk (Some [])"
  by (simp_all add: constructor_def ackingPeripheral_cb)

theorem write_without_keys_witness:
  "sessionKeys constructor = None
   \<and> currentOperation constructor \<noteq> Pending
   \<and> writeCharacteristic ackingPeripheral exampleAead ''chr'' [replicate 600 0] constructor
     = Some (Fulfilled (PduList []),
             constructor\<lparr>currentOperation := Fulfilled (PduList []),
                         calls := [Write ''chr'' (replicate 600 0) False, Read ''chr'']\<rparr>)"
proof -
  have "writeCharacteristic ackingPeripheral exampleAead ''chr'' [replicate 600 0] constructor
     = Some (Fulfilled (PduList []),
             constructor\<lparr>currentOperation := Fulfilled (PduList []),
                         calls := calls constructor @ map (\<lambda>p. Write ''chr'' p False) [replicate 600 0]
                                    @ replicate (Suc (length ([] :: bytes list))) (Read ''chr'')\<rparr>)"
    by (rule write_without_keys [OF write_600_hyps])
  moreover have "calls constructor = []" by (simp add: constructor_def)
  ultimately show ?thesis using write_600_hyps(1,2) by simp
qed

text \<open>
  C3 as stated fails: for one PDU of 600 zero bytes and no session keys the log shows
  one write of all 600 bytes, not a write of 496 bytes followed by one of 104 bytes.
\<close>

theorem write_600_bytes_counterexample:
  "map_option (calls \<circ> snd)
     (writeCharacteristic ackingPeripheral exampleAead ''chr'' [replicate 600 0] constructor)
   = Some [Write ''chr'' (replicate 600 0) False, Read ''chr'']
   \<and> map_option (calls \<circ> snd)
     (writeCharacteristic ackingPeripheral exampleAead ''chr'' [replicate 600 0] constructor)
   \<noteq> Some [Write ''chr'' (replicate 496 0) False, Write ''chr'' (replicate 104 0) False,
            Read ''chr'']"
proof -
  have "writeCharacteristic ackingPeripheral exampleAead ''chr'' [replicate 600 0] constructor
     = Some (Fulfilled (PduList []),
             constructor\<lparr>currentOperation := Fulfilled (PduList []),
                         calls := calls constructor @ map (\<lambda>p. Write ''chr'' p False) [replicate 600 0]
                                    @ replicate (Suc (length ([] :: bytes list))) (Read ''chr'')\<rparr>)"
    by (rule writeCharacteristic_without_keys [OF write_600_hyps])
  moreover have "calls constructor = []" by (simp add: constructor_def)
  ultimately show ?thesis by simp
qed

text \<open>
  C2, as the code has it. An operation appended to a fulfilled chain whose first
  invocation is rejected is invoked once more, and the outcome of that second invocation
  is the outcome of the operation. An operation appended to a rejected chain (the
  operation before it failed) is invoked once, and its outcome, a rejection included, is
  the outcome of the operation. A rejected operation leaves the chain rejected, not
  stuck, so the next operation runs. An operation whose first invocation on a fulfilled
  chain is fulfilled is not invoked again; an operation appended to a chain that never
  settles is never invoked.
\<close>

theorem queue_retry:
  "(currentOperation s = Fulfilled v
      \<and> op c (s\<lparr>currentOperation := Pending\<rparr>) = Some (Rejected e, c1, s1)
    \<longrightarrow> queueOperation op c s
        = map_option (\<lambda>(r, c2, s2). (r, s2\<lparr>currentOperation := r\<rparr>)) (op c1 s1))
   \<and> (currentOperation s = Rejected e0
    \<longrightarrow> queueOperation op c s
        = map_option (\<lambda>(r, c1, s1). (r, s1\<lparr>currentOperation := r\<rparr>))
            (op c (s\<lparr>currentOperation := Pending\<rparr>)))
   \<and> (queueOperation op c s = Some (Rejected e, s') \<longrightarrow> currentOperation s' = Rejected e)
   \<and> (currentOperation s = Fulfilled v
      \<and> op c (s\<lparr>currentOperation := Pending\<rparr>) = Some (Fulfilled w, c1, s1)
    \<longrightarrow> queueOperation op c s = Some (Fulfilled w, s1\<lparr>currentOperation := Fulfilled w\<rparr>))
   \<and> (currentOperation s = Pending \<longrightarrow> queueOperation op c s = Some (Pending, s))"
proof (intro conjI impI)
  assume "currentOperation s = Fulfilled v
          \<and> op c (s\<lparr>currentOperation := Pending\<rparr>) = Some (Rejected e, c1, s1)"
  then show "queueOperation op c s
        = map_option (\<lambda>(r, c2, s2). (r, s2\<lparr>currentOperation := r\<rparr>)) (op c1 s1)"
    by (cases "op c1 s1") (auto simp add: queueOperation_def)
next
  assume "currentOperation s = Rejected e0"
  then show "queueOperation op c s
        = map_option (\<lambda>(r, c1, s1). (r, s1\<lparr>currentOperation := r\<rparr>))
            (op c (s\<lparr>currentOperation := Pending\<rparr>))"
    by (cases "op c (s\<lparr>currentOperation := Pending\<rparr>)") (auto simp add: queueOperation_def)
next
  assume "queueOperation op c s = Some (Rejected e, s')"
  then show "currentOperation s' = Rejected e"
    by (auto simp add: queueOperation_def split: promise.splits option.splits prod.splits)
next
  assume "currentOperation s = Fulfilled v
          \<and> op c (s\<lparr>currentOperation := Pending\<rparr>) = Some (Fulfilled w, c1, s1)"
  then show "queueOperation op c s = Some (Fulfilled w, s1\<lparr>currentOperation := Fulfilled w\<rparr>)"
    by (simp add: queueOperation_def)
next
  assume "currentOperation s = Pending"
  then show "queueOperation op c s = Some (Pending, s)"
    by (simp add: queueOperation_def)
qed

lemma drain_fails_at_once:
  "read_cb P (calls s @ [Read c]) = CbError err
   \<Longrightarrow> readCharacteristicInner P A c pdus s = Some (Rejected err, s\<lparr>calls := calls s @ [Read c]\<rparr>)"
  by (subst readCharacteristicInner.simps) (simp add: Let_def)

theorem queue_retry_witness:
  "currentOperation constructor = Fulfilled Undefined
   \<and> currentOperation (constructor\<lparr>currentOperation := Rejected (Str ''link lost'')\<rparr>)
       = Rejected (Str ''link lost'')
   \<and> readCharacteristic failingPeripheral exampleAead ''chr'' constructor
     = Some (Rejected (Str ''link lost''),
             constructor\<lparr>currentOperation := Rejected (Str ''link lost''),
                         calls := [Read ''chr'', Read ''chr'']\<rparr>)
   \<and> readCharacteristic failingPeripheral exampleAead ''chr''
       (constructor\<lparr>currentOperation := Rejected (Str ''link lost'')\<rparr>)
     = Some (Rejected (Str ''link lost''),
             constructor\<lparr>currentOperation := Rejected (Str ''link lost''),
                         calls := [Read ''chr'']\<rparr>)"
proof -
  let ?op = "\<lambda>c s. map_option (\<lambda>(r, s'). (r, c, s'))
                      (readCharacteristicInner failingPeripheral exampleAead ''chr'' [] s)"
  let ?e = "Str ''link lost''"
  let ?m = "constructor\<lparr>currentOperation := Pending\<rparr>"
  let ?t = "constructor\<lparr>currentOperation := Rejected ?e\<rparr>"
  have h1: "currentOperation constructor = Fulfilled Undefined"
    by (simp add: constructor_def)
  have h2: "?op () ?m = Some (Rejected ?e, (), ?m\<lparr>calls := calls ?m @ [Read ''chr'']\<rparr>)"
    by (simp add: drain_fails_at_once failingPeripheral_cb)
  have h3: "currentOperation ?t = Rejected ?e"
    by simp
  have a: "queueOperation ?op () constructor
           = map_option (\<lambda>(r, c2, s2). (r, s2\<lparr>currentOperation := r\<rparr>))
               (?op () (?m\<lparr>calls := calls ?m @ [Read ''chr'']\<rparr>))"
    using queue_retry [where s = constructor and v = Undefined and op = ?op and c = "()"
                         and e = ?e and ?c1.0 = "()"
                         and ?s1.0 = "?m\<lparr>calls := calls ?m @ [Read ''chr'']\<rparr>"]
      h1 h2 by blast
  have b: "queueOperation ?op () ?t
           = map_option (\<lambda>(r, c1, s1). (r, s1\<lparr>currentOperation := r\<rparr>))
               (?op () (?t\<lparr>currentOperation := Pending\<rparr>))"
    using queue_retry [where s = ?t and op = ?op and c = "()" and ?e0.0 = ?e] h3 by blast
  have a': "readCharacteristic failingPeripheral exampleAead ''chr'' constructor
     = Some (Rejected ?e, constructor\<lparr>currentOperation := Rejected ?e,
                                       calls := [Read ''chr'', Read ''chr'']\<rparr>)"
    unfolding readCharacteristic_def a
    by (simp add: drain_fails_at_once failingPeripheral_cb constructor_def)
  have b': "readCharacteristic failingPeripheral exampleAead ''chr'' ?t
     = Some (Rejected ?e, constructor\<lparr>currentOperation := Rejected ?e, calls := [Read ''chr'']\<rparr>)"
    unfolding readCharacteristic_def b
    by (simp add: drain_fails_at_once failingPeripheral_cb constructor_def)
  from h1 h3 a' b' show ?thesis by blast
qed

text \<open>
  C2 as stated fails. Every read of the peripheral fails. The first \<open>readCharacteristic\<close>
  on a new connection reads twice (the operation and its retry) and is rejected. The
  second \<open>readCharacteristic\<close>, enqueued after it, reads once and is rejected: its first
  attempt failed and it was not invoked again.
\<close>

theorem no_retry_after_failure_counterexample:
  "readCharacteristic failingPeripheral exampleAead ''chr'' constructor
     = Some (Rejected (Str ''link lost''),
             constructor\<lparr>currentOperation := Rejected (Str ''link lost''),
                         calls := [Read ''chr'', Read ''chr'']\<rparr>)
   \<and> readCharacteristic failingPeripheral exampleAead ''chr''
       (constructor\<lparr>currentOperation := Rejected (Str ''link lost''),
                   calls := [Read ''chr'', Read ''chr'']\<rparr>)
     = Some (Rejected (Str ''link lost''),
             constructor\<lparr>currentOperation := Rejected (Str ''link lost''),
                         calls := [Read ''chr'', Read ''chr'', Read ''chr'']\<rparr>)"
  by (simp add: readCharacteristic_def queueOperation_def drain_fails_at_once
        failingPeripheral_cb constructor_def)

lemma connect_fulfilled_state:
  "connect P s = (Fulfilled v, s') \<Longrightarrow> state s' = CONNECTED"
  by (auto simp add: connect_def Let_def split: if_splits reply.splits)

lemma connect_connected: "state s = CONNECTED \<Longrightarrow> connect P s = (Fulfilled Undefined, s)"
  by (simp add: connect_def)

lemma findAndWriteOp_not_found:
  assumes "connect P s = (Fulfilled v, s1)"
    and "discover_cb P (calls s1 @ [Discover [serviceUuid] [characteristicUuid]])
         = CbOk (services, characteristics)"
    and "services = [] \<or> characteristics = []"
  shows "findAndWriteCharacteristicOp P A serviceUuid characteristicUuid pdus c s
         = Some (Rejected (Str ''Characteristic not found''), c,
                 s1\<lparr>calls := calls s1 @ [Discover [serviceUuid] [characteristicUuid]]\<rparr>)"
  using assms by (auto simp add: findAndWriteCharacteristicOp_def Let_def)

lemma findAndWrite_not_found:
  assumes "connect P (s\<lparr>currentOperation := Pending\<rparr>) = (Fulfilled v, s1)"
    and "discover_cb P (calls s1 @ [Discover [serviceUuid] [characteristicUuid]])
         = CbOk (services, characteristics)"
    and "services = [] \<or> characteristics = []"
  shows "(currentOperation s = Fulfilled v0
          \<and> discover_cb P (calls s1 @ [Discover [serviceUuid] [characteristicUuid],
                                        Discover [serviceUuid] [characteristicUuid]])
              = CbOk (services', characteristics')
          \<and> (services' = [] \<or> characteristics' = [])
          \<longrightarrow> findAndWriteCharacteristic P A serviceUuid characteristicUuid pdus s
              = Some (Rejected (Str ''Characteristic not found''),
                      s1\<lparr>calls := calls s1 @ [Discover [serviceUuid] [characteristicUuid],
                                               Discover [serviceUuid] [characteristicUuid]],
                         currentOperation := Rejected (Str ''Characteristic not found'')\<rparr>))
         \<and> (currentOperation s = Rejected e0
          \<longrightarrow> findAndWriteCharacteristic P A serviceUuid characteristicUuid pdus s
              = Some (Rejected (Str ''Characteristic not found''),
                      s1\<lparr>calls := calls s1 @ [Discover [serviceUuid] [characteristicUuid]],
                         currentOperation := Rejected (Str ''Characteristic not found'')\<rparr>))"
proof (intro conjI impI)
  let ?d = "Discover [serviceUuid] [characteristicUuid]"
  let ?nf = "Str ''Characteristic not found''"
  let ?s2 = "s1\<lparr>calls := calls s1 @ [?d]\<rparr>"
  have first: "findAndWriteCharacteristicOp P A serviceUuid characteristicUuid pdus ()
                 (s\<lparr>currentOperation := Pending\<rparr>) = Some (Rejected ?nf, (), ?s2)"
    by (rule findAndWriteOp_not_found [OF assms])
  {
    assume h: "currentOperation s = Fulfilled v0
          \<and> discover_cb P (calls s1 @ [?d, ?d]) = CbOk (services', characteristics')
          \<and> (services' = [] \<or> characteristics' = [])"
    have "state ?s2 = CONNECTED"
      using connect_fulfilled_state [OF assms(1)] by simp
    then have c2: "connect P ?s2 = (Fulfilled Undefined, ?s2)"
      by (rule connect_connected)
    have d2: "discover_cb P (calls ?s2 @ [?d]) = CbOk (services', characteristics')"
      using h by simp
    have second: "findAndWriteCharacteristicOp P A serviceUuid characteristicUuid pdus () ?s2
                  = Some (Rejected ?nf, (), ?s2\<lparr>calls := calls ?s2 @ [?d]\<rparr>)"
      using h by (intro findAndWriteOp_not_found [OF c2 d2]) simp
    show "findAndWriteCharacteristic P A serviceUuid characteristicUuid pdus s
              = Some (Rejected ?nf, s1\<lparr>calls := calls s1 @ [?d, ?d], currentOperation := Rejected ?nf\<rparr>)"
      using h by (simp add: findAndWriteCharacteristic_def queueOperation_def first second)
  }
  {
    assume "currentOperation s = Rejected e0"
    then show "findAndWriteCharacteristic P A serviceUuid characteristicUuid pdus s
              = Some (Rejected ?nf, s1\<lparr>calls := calls s1 @ [?d], currentOperation := Rejected ?nf\<rparr>)"
      by (simp add: findAndWriteCharacteristic_def queueOperation_def first)
  }
qed

text \<open>
  C8, as the code has it. When the connection is established and the discovery reports
  no service or no characteristic, the operation is rejected with
  \<open>Characteristic not found\<close>, and the sequencer treats this rejection as any other.
  On a fulfilled chain the operation is invoked again, with a second discovery, and the
  error reaches the caller if that discovery finds nothing either. On a rejected chain
  the operation is invoked once and the error reaches the caller without a retry.
\<close>

theorem not_found_is_retried:
  assumes "connect P (s\<lparr>currentOperation := Pending\<rparr>) = (Fulfilled v, s1)"
    and "discover_cb P (calls s1 @ [Discover [serviceUuid] [characteristicUuid]])
         = CbOk (services, characteristics)"
    and "services = [] \<or> characteristics = []"
  shows "(currentOperation s = Fulfilled v0
          \<and> discover_cb P (calls s1 @ [Discover [serviceUuid] [characteristicUuid],
                                        Discover [serviceUuid] [characteristicUuid]])
              = CbOk (services', characteristics')
          \<and> (services' = [] \<or> characteristics' = [])
          \<longrightarrow> findAndWriteCharacteristic P A serviceUuid characteristicUuid pdus s
              = Some (Rejected (Str ''Characteristic not found''),
                      s1\<lparr>calls := calls s1 @ [Discover [serviceUuid] [characteristicUuid],
                                               Discover [serviceUuid] [characteristicUuid]],
                         currentOperation := Rejected (Str ''Characteristic not found'')\<rparr>))
         \<and> (currentOperation s = Rejected e0
          \<longrightarrow> findAndWriteCharacteristic P A serviceUuid characteristicUuid pdus s
              = Some (Rejected (Str ''Characteristic not found''),
                      s1\<lparr>calls := calls s1 @ [Discover [serviceUuid] [characteristicUuid]],
                         currentOperation := Rejected (Str ''Characteristic not found'')\<rparr>))"
  by (rule findAndWrite_not_found [OF assms])

lemma empty_connect:
  "connect emptyPeripheral (constructor\<lparr>currentOperation := Pending\<rparr>)
   = (Fulfilled Undefined, constructor\<lparr>currentOperation := Pending, state := CONNECTED, calls := [Connect]\<rparr>)"
  by (simp add: connect_def constructor_def emptyPeripheral_cb Let_def)

theorem not_found_is_retried_witness:
  "connect emptyPeripheral (constructor\<lparr>currentOperation := Pending\<rparr>)
     = (Fulfilled Undefined,
        constructor\<lparr>currentOperation := Pending, state := CONNECTED, calls := [Connect]\<rparr>)
   \<and> discover_cb emptyPeripheral [Connect, Discover [''svc''] [''chr'']] = CbOk ([], [])
   \<and> currentOperation constructor = Fulfilled Undefined
   \<and> discover_cb emptyPeripheral
        [Connect, Discover [''svc''] [''chr''], Discover [''svc''] [''chr'']] = CbOk ([], [])
   \<and> findAndWriteCharacteristic emptyPeripheral exampleAead ''svc'' ''chr'' [[1, 2, 3]] constructor
     = Some (Rejected (Str ''Characteristic not found''),
             constructor\<lparr>currentOperation := Rejected (Str ''Characteristic not found''),
                         state := CONNECTED,
                         calls := [Connect, Discover [''svc''] [''chr''],
                                   Discover [''svc''] [''chr'']]\<rparr>)"
proof -
  let ?s1 = "constructor\<lparr>currentOperation := Pending, state := CONNECTED, calls := [Connect]\<rparr>"
  have d1: "discover_cb emptyPeripheral (calls ?s1 @ [Discover [''svc''] [''chr'']]) = CbOk ([], [])"
    by (simp add: emptyPeripheral_cb)
  have e: "([] :: string list) = [] \<or> ([] :: characteristic list) = []" by simp
  have d2: "discover_cb emptyPeripheral
              (calls ?s1 @ [Discover [''svc''] [''chr''], Discover [''svc''] [''chr'']]) = CbOk ([], [])"
    by (simp add: emptyPeripheral_cb)
  have c0: "currentOperation constructor = Fulfilled Undefined"
    by (simp add: constructor_def)
  from not_found_is_retried [OF empty_connect d1 e, of Undefined "[]" "[]" exampleAead "[[1, 2, 3]]"]
  have "findAndWriteCharacteristic emptyPeripheral exampleAead ''svc'' ''chr'' [[1, 2, 3]] constructor
        = Some (Rejected (Str ''Characteristic not found''),
                ?s1\<lparr>calls := calls ?s1 @ [Discover [''svc''] [''chr''], Discover [''svc''] [''chr'']],
                    currentOperation := Rejected (Str ''Characteristic not found'')\<rparr>)"
    using c0 d2 by blast
  then have "findAndWriteCharacteristic emptyPeripheral exampleAead ''svc'' ''chr'' [[1, 2, 3]] constructor
     = Some (Rejected (Str ''Characteristic not found''),
             constructor\<lparr>currentOperation := Rejected (Str ''Characteristic not found''),
                         state := CONNECTED,
                         calls := [Connect, Discover [''svc''] [''chr''],
                                   Discover [''svc''] [''chr'']]\<rparr>)"
    by (simp add: constructor_def)
  with empty_connect c0 show ?thesis
    by (simp add: emptyPeripheral_cb)
qed

text \<open>
  C8 as stated fails. On a new connection whose peripheral finds nothing, the log shows
  two discoveries: after the first reported nothing, the sequencer invoked the
  operation again before the error reached the caller.
\<close>

theorem not_found_retried_counterexample:
  "findAndWriteCharacteristic emptyPeripheral exampleAead ''svc'' ''chr'' [[1, 2, 3]] constructor
     = Some (Rejected (Str ''Characteristic not found''),
             constructor\<lparr>currentOperation := Rejected (Str ''Characteristic not found''),
                         state := CONNECTED,
                         calls := [Connect, Discover [''svc''] [''chr''],
                                   Discover [''svc''] [''chr'']]\<rparr>)"
proof -
  let ?s1 = "constructor\<lparr>currentOperation := Pending, state := CONNECTED, calls := [Connect]\<rparr>"
  have d1: "discover_cb emptyPeripheral (calls ?s1 @ [Discover [''svc''] [''chr'']]) = CbOk ([], [])"
    by (simp add: emptyPeripheral_cb)
  have e: "([] :: string list) = [] \<or> ([] :: characteristic list) = []" by simp
  have d2: "discover_cb emptyPeripheral
              (calls ?s1 @ [Discover [''svc''] [''chr''], Discover [''svc''] [''chr'']]) = CbOk ([], [])"
    by (simp add: emptyPeripheral_cb)
  have c0: "currentOperation constructor = Fulfilled Undefined"
    by (simp add: constructor_def)
  from findAndWrite_not_found [OF empty_connect d1 e, of Undefined "[]" "[]" exampleAead "[[1, 2, 3]]"]
  have "findAndWriteCharacteristic emptyPeripheral exampleAead ''svc'' ''chr'' [[1, 2, 3]] constructor
        = Some (Rejected (Str ''Characteristic not found''),
                ?s1\<lparr>calls := calls ?s1 @ [Discover [''svc''] [''chr''], Discover [''svc''] [''chr'']],
                    currentOperation := Rejected (Str ''Characteristic not found'')\<rparr>)"
    using c0 d2 by blast
  then show ?thesis
    by (simp add: constructor_def)
qed

lemma connect_keeps_chain: "connect P s = (r, s') \<Longrightarrow> currentOperation s' = currentOperation s"
  by (auto simp add: connect_def Let_def split: if_splits reply.splits)

lemma findAndWrite_found_pending:
  assumes "currentOperation s \<noteq> Pending"
    and "connect P (s\<lparr>currentOperation := Pending\<rparr>) = (Fulfilled v, s1)"
    and "discover_cb P (calls s1 @ [Discover [serviceUuid] [characteristicUuid]])
         = CbOk (services, characteristics)"
    and "services \<noteq> []" and "characteristics \<noteq> []"
  shows "findAndWriteCharacteristic P A serviceUuid characteristicUuid pdus s
         = Some (Pending, s1\<lparr>calls := calls s1 @ [Discover [serviceUuid] [characteristicUuid]]\<rparr>)"
proof -
  let ?s2 = "s1\<lparr>calls := calls s1 @ [Discover [serviceUuid] [characteristicUuid]]\<rparr>"
  have p: "currentOperation ?s2 = Pending"
    using connect_keeps_chain [OF assms(2)] by simp
  then have w: "writeCharacteristic P A (characteristics ! 0) pdus ?s2 = Some (Pending, ?s2)"
    by (simp add: writeCharacteristic_def queueOperation_def)
  have "findAndWriteCharacteristicOp P A serviceUuid characteristicUuid pdus ()
          (s\<lparr>currentOperation := Pending\<rparr>) = Some (Pending, (), ?s2)"
    using assms(4,5) by (simp add: findAndWriteCharacteristicOp_def assms(2,3) Let_def w)
  moreover have "?s2\<lparr>currentOperation := Pending\<rparr> = ?s2"
    using p by simp
  ultimately show ?thesis
    using assms(1) unfolding findAndWriteCharacteristic_def queueOperation_def
    by (cases "currentOperation s") simp_all
qed

text \<open>
  C1. On a new connection, with a peripheral that connects, finds one service and one
  characteristic and acknowledges everything, the promise of
  \<open>findAndWriteCharacteristic\<close> never settles: the callback of the discovery calls
  \<open>writeCharacteristic\<close> and returns without resolving the promise it runs in, and the
  write it enqueued waits for that very promise. The log shows the connect and the
  discovery and no write, and the chain is left stuck.
\<close>

theorem findAndWrite_never_settles:
  "findAndWriteCharacteristic ackingPeripheral exampleAead ''svc'' ''chr'' [[1, 2, 3]] constructor
     = Some (Pending,
             constructor\<lparr>currentOperation := Pending, state := CONNECTED,
                         calls := [Connect, Discover [''svc''] [''chr'']]\<rparr>)"
  by (simp add: findAndWriteCharacteristic_def queueOperation_def findAndWriteCharacteristicOp_def
        writeCharacteristic_def connect_def constructor_def ackingPeripheral_cb Let_def)

end
